theory Spec2Isabelle
  imports Complex_Main "HOL-Library.Word"
begin

section \<open>Python values, errors and library interface\<close>

text \<open>
  The program is \<^verbatim>\<open>convert_all.py\<close>: \<^verbatim>\<open>parse_ply\<close> reads a binary PLY file into a
  float32 array, \<^verbatim>\<open>convert_to_splat\<close> writes the array in the 10-byte splat layout.
  Bytes are 8-bit words, Python integers are \<open>int\<close>, text is a list of Unicode code
  points. Every exception the source can raise is a value of \<open>py_error\<close>; a function that
  can raise returns \<open>py_error + 'a\<close> with \<open>Inl\<close> the exception.
\<close>

type_synonym byte = "8 word"

type_synonym ustr = "nat list"

datatype py_error =
    OSError
  | UnicodeDecodeError
  | ValueError
  | IndexError
  | StructError
  | OverflowError
  | ParseError

text \<open>
  \<open>ParseError\<close> is the error kind the interface description names; no statement of the
  source raises it. \<open>IOError\<close> is Python's alias of \<open>OSError\<close>.
\<close>

text \<open>
  A value produced by \<^verbatim>\<open>struct.unpack\<close>: an \<^verbatim>\<open>int\<close> for format \<^verbatim>\<open>B\<close>, a Python float
  for \<^verbatim>\<open>f\<close> and \<^verbatim>\<open>d\<close>. A float is identified by the bit pattern it was unpacked from.
\<close>

datatype pyval =
    PyInt int
  | PyFloat_f "32 word"
  | PyFloat_d "64 word"

text \<open>A Python float given as a value: \<open>Fin neg m e\<close> is \<open>\<plusminus> m * 2 ^ e\<close>.\<close>

datatype pyfloat =
    Fin bool nat int
  | Inf bool
  | NaN

datatype pyret = PyNone | PyIntRet int

type_synonym 'a row = "'a \<times> 'a \<times> 'a \<times> 'a \<times> 'a \<times> 'a"

text \<open>
  The result of \<^verbatim>\<open>np.array(vertices, dtype=np.float32)\<close>: an empty list gives a
  one-dimensional array of shape (0,), a list of 6-tuples an array of shape (n, 6).
  Indexing a (n, 6) array with an empty index array gives shape (0, 6), which is
  \<open>Arr2 []\<close>.
\<close>

datatype 'f nparray = Arr1 | Arr2 "'f row list"

text \<open>
  The functions of numpy, struct, random and the Unicode database that the source calls
  and that are not part of the repository are parameters of the model. \<open>'f\<close> is the
  type of numpy float32 scalars.
\<close>

record 'f pylib =
  unicode_decimal :: "nat \<Rightarrow> nat option"
    \<comment> \<open>decimal value of a non-ASCII code point of category Nd\<close>
  np_float32 :: "pyval \<Rightarrow> 'f"
    \<comment> \<open>element conversion of \<^verbatim>\<open>np.array(..., dtype=np.float32)\<close>\<close>
  np_mean :: "'f list \<Rightarrow> 'f"
    \<comment> \<open>\<^verbatim>\<open>np.mean\<close> of one column\<close>
  np_sub :: "'f \<Rightarrow> 'f \<Rightarrow> 'f"
  np_max_abs :: "'f list \<Rightarrow> 'f"
    \<comment> \<open>\<^verbatim>\<open>np.max(np.abs(a))\<close> of a non-empty array, flattened\<close>
  np_gt0 :: "'f \<Rightarrow> bool"
  np_div :: "'f \<Rightarrow> 'f \<Rightarrow> 'f"
  np_mul10 :: "'f \<Rightarrow> 'f"
  int_of_float32 :: "'f \<Rightarrow> py_error + int"
    \<comment> \<open>\<^verbatim>\<open>int(v)\<close>: truncation, an error for nan and inf\<close>
  pack_e :: "'f \<Rightarrow> py_error + byte \<times> byte"
    \<comment> \<open>\<^verbatim>\<open>struct.pack('<e', v)\<close>: two bytes, or an error\<close>
  random_choice :: "nat \<Rightarrow> nat \<Rightarrow> nat list"
    \<comment> \<open>\<^verbatim>\<open>np.random.choice(n, k, replace=False)\<close> for \<open>k \<le> n\<close>\<close>

section \<open>Byte strings and text\<close>

definition bytes_of :: "string \<Rightarrow> byte list" where
  "bytes_of s = map of_char s"

definition str_of :: "string \<Rightarrow> ustr" where
  "str_of s = map of_char s"

text \<open>\<^verbatim>\<open>f.readline()\<close> on the rest of the stream: the line with its newline, and what follows.
  At the end of the stream the line is empty.\<close>

fun readline :: "byte list \<Rightarrow> byte list \<times> byte list" where
  "readline [] = ([], [])"
| "readline (b # bs) =
     (if b = 10 then ([b], bs)
      else (case readline bs of (l, r) \<Rightarrow> (b # l, r)))"

text \<open>\<^verbatim>\<open>pat in s\<close> and \<^verbatim>\<open>s.startswith(pat)\<close>.\<close>

definition startswith :: "'a list \<Rightarrow> 'a list \<Rightarrow> bool" where
  "startswith s pat = (take (length pat) s = pat)"

fun contains :: "'a list \<Rightarrow> 'a list \<Rightarrow> bool" where
  "contains pat [] = (pat = [])"
| "contains pat (x # xs) = (startswith (x # xs) pat \<or> contains pat xs)"

text \<open>\<^verbatim>\<open>s.split(c)\<close> with a one-character separator.\<close>

fun split_on :: "'a \<Rightarrow> 'a list \<Rightarrow> 'a list list" where
  "split_on c [] = [[]]"
| "split_on c (x # xs) =
     (if x = c then [] # split_on c xs
      else (case split_on c xs of [] \<Rightarrow> [[x]] | l # ls \<Rightarrow> (x # l) # ls))"

text \<open>The code points for which \<^verbatim>\<open>str.isspace\<close> holds.\<close>

definition isspace :: "nat \<Rightarrow> bool" where
  "isspace c =
     ((9 \<le> c \<and> c \<le> 13) \<or> (28 \<le> c \<and> c \<le> 32) \<or> c = 133 \<or> c = 160 \<or> c = 5760
      \<or> (8192 \<le> c \<and> c \<le> 8202) \<or> c = 8232 \<or> c = 8233 \<or> c = 8239 \<or> c = 8287
      \<or> c = 12288)"

text \<open>\<^verbatim>\<open>s.split()\<close>: the maximal runs of non-space characters.\<close>

function py_split :: "ustr \<Rightarrow> ustr list" where
  "py_split [] = []"
| "py_split (c # cs) =
     (if isspace c then py_split cs
      else takeWhile (\<lambda>x. \<not> isspace x) (c # cs) # py_split (dropWhile (\<lambda>x. \<not> isspace x) cs))"
  by pat_completeness auto
termination
  by (relation "measure length") (auto simp: less_Suc_eq_le length_dropWhile_le)

text \<open>
  \<^verbatim>\<open>bytes.decode('utf-8')\<close>, strict: the well-formed byte sequences of the Unicode
  standard, anything else raises.
\<close>

definition cont :: "nat \<Rightarrow> bool" where
  "cont b = (128 \<le> b \<and> b \<le> 191)"

definition valid2 :: "nat \<Rightarrow> nat \<Rightarrow> bool" where
  "valid2 b0 b1 = (194 \<le> b0 \<and> b0 \<le> 223 \<and> cont b1)"

definition valid3 :: "nat \<Rightarrow> nat \<Rightarrow> nat \<Rightarrow> bool" where
  "valid3 b0 b1 b2 =
     (((b0 = 224 \<and> 160 \<le> b1 \<and> b1 \<le> 191)
       \<or> (225 \<le> b0 \<and> b0 \<le> 236 \<and> cont b1)
       \<or> (b0 = 237 \<and> 128 \<le> b1 \<and> b1 \<le> 159)
       \<or> (238 \<le> b0 \<and> b0 \<le> 239 \<and> cont b1)) \<and> cont b2)"

definition valid4 :: "nat \<Rightarrow> nat \<Rightarrow> nat \<Rightarrow> nat \<Rightarrow> bool" where
  "valid4 b0 b1 b2 b3 =
     (((b0 = 240 \<and> 144 \<le> b1 \<and> b1 \<le> 191)
       \<or> (241 \<le> b0 \<and> b0 \<le> 243 \<and> cont b1)
       \<or> (b0 = 244 \<and> 128 \<le> b1 \<and> b1 \<le> 143)) \<and> cont b2 \<and> cont b3)"

definition cons_ok :: "'a \<Rightarrow> py_error + 'a list \<Rightarrow> py_error + 'a list" where
  "cons_ok x r = (case r of Inl e \<Rightarrow> Inl e | Inr xs \<Rightarrow> Inr (x # xs))"

fun utf8 :: "nat list \<Rightarrow> py_error + ustr" where
  "utf8 [] = Inr []"
| "utf8 (b0 # bs) =
     (if b0 < 128 then cons_ok b0 (utf8 bs)
      else (case bs of [] \<Rightarrow> Inl UnicodeDecodeError
        | b1 # bs1 \<Rightarrow>
          if valid2 b0 b1 then cons_ok ((b0 mod 32) * 64 + b1 mod 64) (utf8 bs1)
          else (case bs1 of [] \<Rightarrow> Inl UnicodeDecodeError
            | b2 # bs2 \<Rightarrow>
              if valid3 b0 b1 b2
              then cons_ok ((b0 mod 16) * 4096 + (b1 mod 64) * 64 + b2 mod 64) (utf8 bs2)
              else (case bs2 of [] \<Rightarrow> Inl UnicodeDecodeError
                | b3 # bs3 \<Rightarrow>
                  if valid4 b0 b1 b2 b3
                  then cons_ok ((b0 mod 8) * 262144 + (b1 mod 64) * 4096
                                 + (b2 mod 64) * 64 + b3 mod 64) (utf8 bs3)
                  else Inl UnicodeDecodeError))))"

definition decode_utf8 :: "byte list \<Rightarrow> py_error + ustr" where
  "decode_utf8 bs = utf8 (map unat bs)"

text \<open>
  \<^verbatim>\<open>int(s)\<close> for a string: surrounding whitespace is stripped, a sign may lead, then
  decimal digits with single underscores between them. A non-ASCII decimal digit counts
  as its value. (The interpreter's optional limit on the number of digits is not
  modelled.)
\<close>

definition to_ascii :: "'f pylib \<Rightarrow> nat \<Rightarrow> nat" where
  "to_ascii L c =
     (if c < 128 then c
      else if isspace c then 32
      else (case unicode_decimal L c of Some d \<Rightarrow> 48 + d | None \<Rightarrow> 63))"

definition digit_of :: "nat \<Rightarrow> nat option" where
  "digit_of c = (if 48 \<le> c \<and> c \<le> 57 then Some (c - 48) else None)"

fun digits_val :: "nat \<Rightarrow> nat list \<Rightarrow> nat option" where
  "digits_val acc [] = Some acc"
| "digits_val acc (c # cs) =
     (if c = 95 then (case cs of [] \<Rightarrow> None
                      | d # _ \<Rightarrow> if d = 95 then None else digits_val acc cs)
      else (case digit_of c of None \<Rightarrow> None
            | Some d \<Rightarrow> digits_val (10 * acc + d) cs))"

definition strip :: "ustr \<Rightarrow> ustr" where
  "strip s = rev (dropWhile isspace (rev (dropWhile isspace s)))"

definition unsigned_val :: "nat list \<Rightarrow> nat option" where
  "unsigned_val ds = (case ds of [] \<Rightarrow> None
     | c # _ \<Rightarrow> if c = 95 then None else digits_val 0 ds)"

definition py_int :: "'f pylib \<Rightarrow> ustr \<Rightarrow> py_error + int" where
  "py_int L s =
     (case strip (map (to_ascii L) s) of
        [] \<Rightarrow> Inl ValueError
      | c # cs \<Rightarrow>
          if c = 45 then (case unsigned_val cs of None \<Rightarrow> Inl ValueError
                          | Some n \<Rightarrow> Inr (- int n))
          else if c = 43 then (case unsigned_val cs of None \<Rightarrow> Inl ValueError
                          | Some n \<Rightarrow> Inr (int n))
          else (case unsigned_val (c # cs) of None \<Rightarrow> Inl ValueError
                          | Some n \<Rightarrow> Inr (int n)))"

section \<open>The PLY reader\<close>

text \<open>
  Lines 10-15 of \<^verbatim>\<open>parse_ply\<close>: the header loop. It has no exit at the end of the
  stream, where \<^verbatim>\<open>readline\<close> returns the empty line for ever; not returning is the
  value \<open>None\<close>.
\<close>

partial_function (option) read_header :: "byte list \<Rightarrow> byte list \<Rightarrow> (byte list \<times> byte list) option"
where
  "read_header header f =
     (case readline f of (line, f') \<Rightarrow>
        if contains (bytes_of ''end_header'') line then Some (header @ line, f')
        else read_header (header @ line) f')"

text \<open>Lines 18-22: the vertex count, 0 when no line declares it.\<close>

fun find_vertex_count :: "'f pylib \<Rightarrow> ustr list \<Rightarrow> py_error + int" where
  "find_vertex_count L [] = Inr 0"
| "find_vertex_count L (line # lines) =
     (if startswith line (str_of ''element vertex'')
      then (case py_split line of [] \<Rightarrow> Inl IndexError
            | t # ts \<Rightarrow> py_int L (last (t # ts)))
      else find_vertex_count L lines)"

text \<open>Lines 31-38: one format character per recognised property line.\<close>

datatype fmt = Fmt_f | Fmt_B | Fmt_d

fun find_props :: "ustr list \<Rightarrow> fmt list" where
  "find_props [] = []"
| "find_props (line # lines) =
     (if startswith line (str_of ''property float'') then Fmt_f # find_props lines
      else if startswith line (str_of ''property uchar'')
              \<or> startswith line (str_of ''property uint8'') then Fmt_B # find_props lines
      else if startswith line (str_of ''property double'') then Fmt_d # find_props lines
      else find_props lines)"

text \<open>\<^verbatim>\<open>struct.calcsize\<close> and \<^verbatim>\<open>struct.unpack\<close> for a little-endian format without
  padding.\<close>

fun fmt_size :: "fmt \<Rightarrow> nat" where
  "fmt_size Fmt_f = 4"
| "fmt_size Fmt_B = 1"
| "fmt_size Fmt_d = 8"

definition calcsize :: "fmt list \<Rightarrow> nat" where
  "calcsize props = sum_list (map fmt_size props)"

fun le_word :: "byte list \<Rightarrow> 'a::len word" where
  "le_word [] = 0"
| "le_word (b # bs) = ucast b + 256 * le_word bs"

fun unpack_field :: "fmt \<Rightarrow> byte list \<Rightarrow> pyval" where
  "unpack_field Fmt_f bs = PyFloat_f (le_word bs)"
| "unpack_field Fmt_B bs = PyInt (uint (le_word bs :: byte))"
| "unpack_field Fmt_d bs = PyFloat_d (le_word bs)"

fun unpack_fields :: "fmt list \<Rightarrow> byte list \<Rightarrow> pyval list" where
  "unpack_fields [] data = []"
| "unpack_fields (p # ps) data =
     unpack_field p (take (fmt_size p) data) # unpack_fields ps (drop (fmt_size p) data)"

definition struct_unpack :: "fmt list \<Rightarrow> byte list \<Rightarrow> py_error + pyval list" where
  "struct_unpack props data =
     (if length data \<noteq> calcsize props then Inl StructError
      else Inr (unpack_fields props data))"

text \<open>Lines 49-61: one record. \<^verbatim>\<open>values[2]\<close> raises when there are fewer than three
  values.\<close>

definition is_uchar :: "pyval \<Rightarrow> bool" where
  "is_uchar v = (case v of PyInt n \<Rightarrow> 0 \<le> n \<and> n \<le> 255 | _ \<Rightarrow> False)"

definition decode_record :: "fmt list \<Rightarrow> byte list \<Rightarrow> py_error + pyval row" where
  "decode_record props data =
     (case struct_unpack props data of Inl e \<Rightarrow> Inl e
      | Inr values \<Rightarrow>
          if length values < 3 then Inl IndexError
          else
            let x = values ! 0; y = values ! 1; z = values ! 2;
                uchars = filter is_uchar values
            in if length uchars \<ge> 3
               then Inr (x, y, z, uchars ! 0, uchars ! 1, uchars ! 2)
               else Inr (x, y, z, PyInt 128, PyInt 128, PyInt 128))"

text \<open>Lines 44-61: the record loop, \<open>n\<close> iterations left, \<open>f\<close> the rest of the stream.\<close>

fun read_vertices ::
  "fmt list \<Rightarrow> nat \<Rightarrow> byte list \<Rightarrow> pyval row list \<Rightarrow> py_error + pyval row list" where
  "read_vertices props 0 f vertices = Inr vertices"
| "read_vertices props (Suc n) f vertices =
     (let data = take (calcsize props) f in
      if length data < calcsize props then Inr vertices
      else (case decode_record props data of Inl e \<Rightarrow> Inl e
            | Inr v \<Rightarrow> read_vertices props n (drop (calcsize props) f) (vertices @ [v])))"

definition map_row :: "('a \<Rightarrow> 'b) \<Rightarrow> 'a row \<Rightarrow> 'b row" where
  "map_row g v = (case v of (x, y, z, r, g', b) \<Rightarrow> (g x, g y, g z, g r, g g', g b))"

definition np_array :: "'f pylib \<Rightarrow> pyval row list \<Rightarrow> 'f nparray" where
  "np_array L vertices =
     (if vertices = [] then Arr1 else Arr2 (map (map_row (np_float32 L)) vertices))"

text \<open>Lines 17-63, after the header loop.\<close>

definition parse_body :: "'f pylib \<Rightarrow> byte list \<Rightarrow> byte list \<Rightarrow> py_error + 'f nparray" where
  "parse_body L header f =
     (case decode_utf8 header of Inl e \<Rightarrow> Inl e
      | Inr header_str \<Rightarrow>
          (case find_vertex_count L (split_on 10 header_str) of Inl e \<Rightarrow> Inl e
           | Inr vertex_count \<Rightarrow>
               (case read_vertices (find_props (split_on 10 header_str))
                       (nat vertex_count) f [] of
                  Inl e \<Rightarrow> Inl e
                | Inr vertices \<Rightarrow> Inr (np_array L vertices))))"

text \<open>The file system: the content of each readable file, and the paths that can be
  opened for writing.\<close>

record filesys =
  files :: "string \<Rightarrow> byte list option"
  writable :: "string \<Rightarrow> bool"

text \<open>\<^verbatim>\<open>parse_ply(filepath)\<close>. \<open>None\<close>: the call does not return.\<close>

definition parse_ply :: "'f pylib \<Rightarrow> filesys \<Rightarrow> string \<Rightarrow> (py_error + 'f nparray) option" where
  "parse_ply L fs filepath =
     (case files fs filepath of None \<Rightarrow> Some (Inl OSError)
      | Some content \<Rightarrow>
          (case read_header [] content of None \<Rightarrow> None
           | Some (header, f) \<Rightarrow> Some (parse_body L header f)))"

section \<open>The splat encoder\<close>

text \<open>
  Line 72, \<^verbatim>\<open>int(len(vertices) * sample_ratio)\<close>: the length is converted to a float, the
  product is the double-precision product (the exact product rounded to nearest, ties
  to even, to 53 significant bits and no finer than \<open>2 ^ -1074\<close>), and \<^verbatim>\<open>int\<close>
  truncates towards zero.
\<close>

fun bit_length :: "nat \<Rightarrow> nat" where
  "bit_length n = (if n = 0 then 0 else Suc (bit_length (n div 2)))"

declare bit_length.simps [simp del]

definition rne :: "nat \<Rightarrow> nat \<Rightarrow> nat" where
  "rne p d =
     (let q = p div 2 ^ d; r = p mod 2 ^ d
      in if 2 * r > 2 ^ d \<or> (2 * r = 2 ^ d \<and> odd q) then q + 1 else q)"

definition finite_or_inf :: "bool \<Rightarrow> nat \<Rightarrow> int \<Rightarrow> pyfloat" where
  "finite_or_inf s p e = (if int (bit_length p) + e > 1024 then Inf s else Fin s p e)"

definition round_double :: "bool \<Rightarrow> nat \<Rightarrow> int \<Rightarrow> pyfloat" where
  "round_double s p e =
     (let q = max (e + int (bit_length p) - 53) (- 1074)
      in if q \<le> e then finite_or_inf s p e
         else finite_or_inf s (rne p (nat (q - e))) q)"

definition float_of_len :: "nat \<Rightarrow> py_error + pyfloat" where
  "float_of_len n =
     (case round_double False n 0 of
        Inf _ \<Rightarrow> Inl OverflowError
      | x \<Rightarrow> Inr x)"

fun float_mul :: "pyfloat \<Rightarrow> pyfloat \<Rightarrow> pyfloat" where
  "float_mul (Fin s1 m1 e1) (Fin s2 m2 e2) = round_double (s1 \<noteq> s2) (m1 * m2) (e1 + e2)"
| "float_mul (Fin s1 m1 e1) (Inf s2) = (if m1 = 0 then NaN else Inf (s1 \<noteq> s2))"
| "float_mul (Inf s1) (Fin s2 m2 e2) = (if m2 = 0 then NaN else Inf (s1 \<noteq> s2))"
| "float_mul (Inf s1) (Inf s2) = Inf (s1 \<noteq> s2)"
| "float_mul NaN y = NaN"
| "float_mul x NaN = NaN"

fun int_of_float :: "pyfloat \<Rightarrow> py_error + int" where
  "int_of_float (Fin s m e) =
     (let a = (if e \<ge> 0 then int m * 2 ^ nat e else int m div 2 ^ nat (- e))
      in Inr (if s then - a else a))"
| "int_of_float (Inf s) = Inl OverflowError"
| "int_of_float NaN = Inl ValueError"

definition len :: "'f nparray \<Rightarrow> nat" where
  "len vertices = (case vertices of Arr1 \<Rightarrow> 0 | Arr2 rows \<Rightarrow> length rows)"

definition target_points_of :: "nat \<Rightarrow> pyfloat \<Rightarrow> py_error + int" where
  "target_points_of n sample_ratio =
     (case float_of_len n of Inl e \<Rightarrow> Inl e
      | Inr x \<Rightarrow> int_of_float (float_mul x sample_ratio))"

text \<open>\<^verbatim>\<open>vertices[indices]\<close>: an index out of range raises.\<close>

definition take_rows :: "'f nparray \<Rightarrow> nat list \<Rightarrow> py_error + 'f nparray" where
  "take_rows vertices indices =
     (case vertices of
        Arr1 \<Rightarrow> if indices = [] then Inr Arr1 else Inl IndexError
      | Arr2 rows \<Rightarrow>
          if \<exists>i \<in> set indices. i \<ge> length rows then Inl IndexError
          else Inr (Arr2 (map (\<lambda>i. rows ! i) indices)))"

text \<open>Lines 72-76. A negative size makes \<^verbatim>\<open>np.random.choice\<close> raise.\<close>

definition subsample :: "'f pylib \<Rightarrow> 'f nparray \<Rightarrow> pyfloat \<Rightarrow> py_error + 'f nparray" where
  "subsample L vertices sample_ratio =
     (case target_points_of (len vertices) sample_ratio of Inl e \<Rightarrow> Inl e
      | Inr target_points \<Rightarrow>
          if target_points < int (len vertices)
          then (if target_points < 0 then Inl ValueError
                else take_rows vertices
                       (random_choice L (len vertices) (nat target_points)))
          else Inr vertices)"

text \<open>
  Lines 79-84. The two-index slice of the one-dimensional empty array raises
  \<^verbatim>\<open>IndexError\<close>; \<^verbatim>\<open>np.max\<close> of an array without elements raises \<^verbatim>\<open>ValueError\<close>.
\<close>

type_synonym 'a pos = "'a \<times> 'a \<times> 'a"

definition position :: "'a row \<Rightarrow> 'a pos" where
  "position v = (case v of (x, y, z, r, g, b) \<Rightarrow> (x, y, z))"

definition color :: "'a row \<Rightarrow> 'a pos" where
  "color v = (case v of (x, y, z, r, g, b) \<Rightarrow> (r, g, b))"

definition map_pos :: "('a \<Rightarrow> 'b) \<Rightarrow> 'a pos \<Rightarrow> 'b pos" where
  "map_pos h p = (case p of (x, y, z) \<Rightarrow> (h x, h y, h z))"

definition coords :: "'a pos \<Rightarrow> 'a list" where
  "coords p = (case p of (x, y, z) \<Rightarrow> [x, y, z])"

definition centered :: "'f pylib \<Rightarrow> 'f pos list \<Rightarrow> 'f pos list" where
  "centered L positions =
     (let cx = np_mean L (map fst positions);
          cy = np_mean L (map (\<lambda>p. fst (snd p)) positions);
          cz = np_mean L (map (\<lambda>p. snd (snd p)) positions)
      in map (\<lambda>p. case p of (x, y, z) \<Rightarrow> (np_sub L x cx, np_sub L y cy, np_sub L z cz))
           positions)"

definition normalize :: "'f pylib \<Rightarrow> 'f nparray \<Rightarrow> py_error + 'f pos list" where
  "normalize L vertices =
     (case vertices of
        Arr1 \<Rightarrow> Inl IndexError
      | Arr2 rows \<Rightarrow>
          if rows = [] then Inl ValueError
          else
            let positions = centered L (map position rows);
                max_extent = np_max_abs L (concat (map coords positions))
            in if np_gt0 L max_extent
               then Inr (map (map_pos (\<lambda>c. np_mul10 L (np_div L c max_extent))) positions)
               else Inr positions)"

text \<open>\<^verbatim>\<open>struct.pack('<I', n)\<close> and \<^verbatim>\<open>struct.pack('BBBB', r, g, b, 255)\<close>: a value out of
  range raises \<^verbatim>\<open>struct.error\<close>.\<close>

definition pack_I :: "nat \<Rightarrow> py_error + byte list" where
  "pack_I n =
     (if n < 2 ^ 32
      then Inr [of_nat n, of_nat (n div 256), of_nat (n div 65536), of_nat (n div 16777216)]
      else Inl StructError)"

definition pack_BBBB :: "int \<Rightarrow> int \<Rightarrow> int \<Rightarrow> int \<Rightarrow> py_error + byte list" where
  "pack_BBBB r g b a =
     (if \<forall>v \<in> set [r, g, b, a]. 0 \<le> v \<and> v \<le> 255
      then Inr [of_int r, of_int g, of_int b, of_int a]
      else Inl StructError)"

text \<open>
  Lines 92-101, one iteration: \<open>out\<close> is what the file holds so far. An exception leaves
  in the file what was written before it.
\<close>

definition write_point ::
  "'f pylib \<Rightarrow> 'f pos \<Rightarrow> 'f row \<Rightarrow> byte list \<Rightarrow> py_error option \<times> byte list" where
  "write_point L p v out =
     (case p of (x, y, z) \<Rightarrow>
      case color v of (cr, cg, cb) \<Rightarrow>
      case int_of_float32 L cr of Inl e \<Rightarrow> (Some e, out) | Inr r \<Rightarrow>
      case int_of_float32 L cg of Inl e \<Rightarrow> (Some e, out) | Inr g \<Rightarrow>
      case int_of_float32 L cb of Inl e \<Rightarrow> (Some e, out) | Inr b \<Rightarrow>
      case pack_e L x of Inl e \<Rightarrow> (Some e, out) | Inr (x0, x1) \<Rightarrow>
      case pack_e L y of Inl e \<Rightarrow> (Some e, out @ [x0, x1]) | Inr (y0, y1) \<Rightarrow>
      case pack_e L z of Inl e \<Rightarrow> (Some e, out @ [x0, x1, y0, y1]) | Inr (z0, z1) \<Rightarrow>
      case pack_BBBB r g b 255 of Inl e \<Rightarrow> (Some e, out @ [x0, x1, y0, y1, z0, z1])
      | Inr cs \<Rightarrow> (None, out @ [x0, x1, y0, y1, z0, z1] @ cs))"

fun write_points ::
  "'f pylib \<Rightarrow> ('f pos \<times> 'f row) list \<Rightarrow> byte list \<Rightarrow> py_error option \<times> byte list" where
  "write_points L [] out = (None, out)"
| "write_points L ((p, v) # rest) out =
     (case write_point L p v out of
        (Some e, out') \<Rightarrow> (Some e, out')
      | (None, out') \<Rightarrow> write_points L rest out')"

definition rows_of :: "'f nparray \<Rightarrow> 'f row list" where
  "rows_of vertices = (case vertices of Arr1 \<Rightarrow> [] | Arr2 rows \<Rightarrow> rows)"

text \<open>Lines 87-101: the file is created empty by \<^verbatim>\<open>open\<close>, then written.\<close>

definition write_file ::
  "'f pylib \<Rightarrow> 'f pos list \<Rightarrow> 'f nparray \<Rightarrow> py_error option \<times> byte list" where
  "write_file L positions vertices =
     (case pack_I (len vertices) of Inl e \<Rightarrow> (Some e, [])
      | Inr hdr \<Rightarrow> write_points L (zip positions (rows_of vertices)) hdr)"

text \<open>\<^verbatim>\<open>convert_to_splat(vertices, output_path, sample_ratio)\<close>: the exception or the
  returned value, and the file system afterwards.\<close>

definition convert_to_splat ::
  "'f pylib \<Rightarrow> 'f nparray \<Rightarrow> string \<Rightarrow> pyfloat \<Rightarrow> filesys \<Rightarrow> (py_error + pyret) \<times> filesys" where
  "convert_to_splat L vertices output_path sample_ratio fs =
     (case subsample L vertices sample_ratio of Inl e \<Rightarrow> (Inl e, fs)
      | Inr vertices' \<Rightarrow>
          (case normalize L vertices' of Inl e \<Rightarrow> (Inl e, fs)
           | Inr positions \<Rightarrow>
               if \<not> writable fs output_path then (Inl OSError, fs)
               else
                 (case write_file L positions vertices' of
                    (Some e, out) \<Rightarrow> (Inl e, fs\<lparr>files := (files fs)(output_path \<mapsto> out)\<rparr>)
                  | (None, out) \<Rightarrow> (Inr PyNone, fs\<lparr>files := (files fs)(output_path \<mapsto> out)\<rparr>))))"

text \<open>
  Lines 129-130 of \<^verbatim>\<open>main\<close>, the conversion of one file: \<^verbatim>\<open>parse_ply\<close>, then
  \<^verbatim>\<open>convert_to_splat\<close> on its result. The sampling ratio is an argument here; \<^verbatim>\<open>main\<close>
  passes none and so uses the default 0.6.
\<close>

definition convert ::
  "'f pylib \<Rightarrow> string \<Rightarrow> string \<Rightarrow> pyfloat \<Rightarrow> filesys \<Rightarrow> ((py_error + pyret) \<times> filesys) option" where
  "convert L input_path output_path sample_ratio fs =
     (case parse_ply L fs input_path of None \<Rightarrow> None
      | Some (Inl e) \<Rightarrow> Some (Inl e, fs)
      | Some (Inr vertices) \<Rightarrow> Some (convert_to_splat L vertices output_path sample_ratio fs))"

section \<open>An executable instance of the library interface\<close>

text \<open>
  Float32 scalars as exact rationals, with exact arithmetic: what numpy computes
  whenever every intermediate result is a float32. The half-precision packing rounds
  to nearest, ties to even, and raises on overflow, as \<^verbatim>\<open>struct.pack('<e', v)\<close> does.
  The bit patterns of infinities and nans have no rational value and are read as 0.
\<close>

definition pow2 :: "int \<Rightarrow> rat" where
  "pow2 k = (if k \<ge> 0 then 2 ^ nat k else 1 / 2 ^ nat (- k))"

definition f32_value :: "32 word \<Rightarrow> rat" where
  "f32_value w =
     (let n = unat w; s = n div 2 ^ 31; e = (n div 2 ^ 23) mod 256; m = n mod 2 ^ 23;
          a = (if e = 255 then 0
               else if e = 0 then of_nat m * pow2 (- 149)
               else of_nat (2 ^ 23 + m) * pow2 (int e - 150))
      in if s = 1 then - a else a)"

definition f64_value :: "64 word \<Rightarrow> rat" where
  "f64_value w =
     (let n = unat w; s = n div 2 ^ 63; e = (n div 2 ^ 52) mod 2048; m = n mod 2 ^ 52;
          a = (if e = 2047 then 0
               else if e = 0 then of_nat m * pow2 (- 1074)
               else of_nat (2 ^ 52 + m) * pow2 (int e - 1075))
      in if s = 1 then - a else a)"

definition rat_of_pyval :: "pyval \<Rightarrow> rat" where
  "rat_of_pyval v =
     (case v of PyInt n \<Rightarrow> of_int n | PyFloat_f w \<Rightarrow> f32_value w | PyFloat_d w \<Rightarrow> f64_value w)"

definition rne_rat :: "rat \<Rightarrow> int" where
  "rne_rat q =
     (let f = \<lfloor>q\<rfloor>; r = q - of_int f
      in if r > 1 / 2 \<or> (r = 1 / 2 \<and> odd f) then f + 1 else f)"

definition half_exponent :: "rat \<Rightarrow> int" where
  "half_exponent a =
     (case find (\<lambda>k. a < pow2 (k + 1)) [- 14 ..  15] of Some k \<Rightarrow> k | None \<Rightarrow> 16)"

definition half_bits :: "rat \<Rightarrow> py_error + nat" where
  "half_bits x =
     (let a = \<bar>x\<bar>; e0 = half_exponent a; m0 = rne_rat (a * pow2 (10 - e0));
          e = (if m0 = 2048 then e0 + 1 else e0);
          m = (if m0 = 2048 then 1024 else m0);
          s = (if x < 0 then 32768 else 0)
      in if e > 15 then Inl OverflowError
         else if m < 1024 then Inr (s + nat m)
         else Inr (s + nat (e + 15) * 1024 + nat (m - 1024)))"

definition pack_half :: "rat \<Rightarrow> py_error + byte \<times> byte" where
  "pack_half x =
     (case half_bits x of Inl e \<Rightarrow> Inl e
      | Inr n \<Rightarrow> Inr (of_nat (n mod 256), of_nat (n div 256)))"

definition trunc_rat :: "rat \<Rightarrow> int" where
  "trunc_rat x = (if x \<ge> 0 then \<lfloor>x\<rfloor> else - \<lfloor>- x\<rfloor>)"

definition exact_lib :: "rat pylib" where
  "exact_lib =
     \<lparr> unicode_decimal = (\<lambda>c. if 1632 \<le> c \<and> c \<le> 1641 then Some (c - 1632) else None),
       np_float32 = rat_of_pyval,
       np_mean = (\<lambda>xs. sum_list xs / of_nat (length xs)),
       np_sub = (\<lambda>a b. a - b),
       np_max_abs = (\<lambda>xs. foldr (\<lambda>x m. max \<bar>x\<bar> m) xs 0),
       np_gt0 = (\<lambda>x. 0 < x),
       np_div = (\<lambda>a b. a / b),
       np_mul10 = (\<lambda>a. a * 10),
       int_of_float32 = (\<lambda>x. Inr (trunc_rat x)),
       pack_e = pack_half,
       random_choice = (\<lambda>n k. rev [n - k ..< n]) \<rparr>"

section \<open>Notions used in the statements\<close>

text \<open>The bytes of the byte-kind fields of one record, in field order: a byte-kind
  field takes one byte, a float field is skipped by its width.\<close>

fun byte_fields :: "fmt list \<Rightarrow> byte list \<Rightarrow> byte list" where
  "byte_fields [] data = []"
| "byte_fields (p # ps) data =
     (if p = Fmt_B then take 1 data @ byte_fields ps (drop 1 data)
      else byte_fields ps (drop (fmt_size p) data))"

text \<open>The \<open>i\<close>-th record of the body: \<open>stride\<close> bytes from offset \<open>i * stride\<close>.\<close>

definition chunk :: "fmt list \<Rightarrow> byte list \<Rightarrow> nat \<Rightarrow> byte list" where
  "chunk props f i = take (calcsize props) (drop (i * calcsize props) f)"

text \<open>Sample inputs: a header from its lines, a file system from named files.\<close>

definition ply_header :: "string list \<Rightarrow> byte list" where
  "ply_header ls = concat (map (\<lambda>l. bytes_of l @ [10]) ls)"

definition fs_of :: "(string \<times> byte list) list \<Rightarrow> filesys" where
  "fs_of fl = \<lparr> files = map_of fl, writable = (\<lambda>p. True) \<rparr>"

text \<open>Sample B: two points, the position fields before the colour fields. The second
  point has x = 4.0.\<close>

definition hdrB :: "byte list" where
  "hdrB = ply_header [''ply'', ''format binary_little_endian 1.0'', ''element vertex 2'',
     ''property float x'', ''property float y'', ''property float z'',
     ''property uchar red'', ''property uchar green'', ''property uchar blue'', ''end_header'']"

definition bodyB :: "byte list" where
  "bodyB = [0,0,0,0, 0,0,0,0, 0,0,0,0, 10,20,30,  0,0,128,64, 0,0,0,0, 0,0,0,0, 40,50,60]"

definition fsB :: filesys where
  "fsB = fs_of [(''b.ply'', hdrB @ bodyB)]"

definition finite_double :: "pyfloat \<Rightarrow> bool" where
  "finite_double x = (case x of Fin s m e \<Rightarrow> m < 2 ^ 53 \<and> - 1074 \<le> e \<and> e \<le> 971 | _ \<Rightarrow> False)"

definition hdrE :: "byte list" where
  "hdrE = ply_header [''ply'', ''format binary_little_endian 1.0'', ''element vertex 0'',
     ''property float x'', ''property float y'', ''property float z'', ''end_header'']"

definition fsE :: filesys where
  "fsE = fs_of [(''e.ply'', hdrE)]"

definition hdrD :: "byte list" where
  "hdrD = ply_header [''ply'', ''format binary_little_endian 1.0'',
     ''property float x'', ''property float y'', ''property float z'', ''end_header'']"

definition bodyD :: "byte list" where
  "bodyD = [0,0,128,63, 0,0,0,64, 0,0,64,64]"

definition fsD :: filesys where
  "fsD = fs_of [(''d.ply'', hdrD @ bodyD)]"

definition hdrA :: "byte list" where
  "hdrA = ply_header [''ply'', ''format binary_little_endian 1.0'', ''element vertex 1'',
     ''property uchar red'', ''property uchar green'', ''property uchar blue'',
     ''property float x'', ''property float y'', ''property float z'', ''end_header'']"

definition bodyA :: "byte list" where
  "bodyA = [10,20,30, 0,0,128,63, 0,0,0,64, 0,0,64,64]"

definition fsA :: filesys where
  "fsA = fs_of [(''a.ply'', hdrA @ bodyA)]"

definition hdrC :: "byte list" where
  "hdrC = ply_header [''ply'', ''format binary_little_endian 1.0'', ''element vertex 5'',
     ''property float x'', ''property float y'', ''property float z'',
     ''property uchar red'', ''property uchar green'', ''property uchar blue'', ''end_header'']"

definition fsC :: filesys where
  "fsC = fs_of [(''c.ply'', hdrC @ bodyB @ [1, 2, 3])]"

text \<open>An unsigned integer read back from its little-endian bytes.\<close>

fun le_nat :: "byte list \<Rightarrow> nat" where
  "le_nat [] = 0"
| "le_nat (b # bs) = unat b + 256 * le_nat bs"

text \<open>
  The record of the splat layout for a position and a table row: x, y, z packed as
  half-precision floats, the three colour components truncated to integers and written
  as unsigned bytes, then the byte 255. \<open>None\<close> when a component cannot be packed.
\<close>

definition splat_record :: "'f pylib \<Rightarrow> 'f pos \<Rightarrow> 'f row \<Rightarrow> byte list option" where
  "splat_record L p v =
     (case (p, color v) of ((x, y, z), (cr, cg, cb)) \<Rightarrow>
        (case (pack_e L x, pack_e L y, pack_e L z,
               int_of_float32 L cr, int_of_float32 L cg, int_of_float32 L cb) of
           (Inr (x0, x1), Inr (y0, y1), Inr (z0, z1), Inr r, Inr g, Inr b) \<Rightarrow>
             if 0 \<le> r \<and> r \<le> 255 \<and> 0 \<le> g \<and> g \<le> 255 \<and> 0 \<le> b \<and> b \<le> 255
             then Some [x0, x1, y0, y1, z0, z1, of_int r, of_int g, of_int b, 255]
             else None
         | _ \<Rightarrow> None))"

definition rowsB :: "rat row list" where
  "rowsB = [(0, 0, 0, 10, 20, 30), (4, 0, 0, 40, 50, 60)]"

definition hdrF :: "byte list" where
  "hdrF = ply_header [''ply'', ''format binary_little_endian 1.0'', ''element vertex many'',
     ''property float x'', ''property float y'', ''property float z'', ''end_header'']"

definition fsF :: filesys where
  "fsF = fs_of [(''f.ply'', hdrF)]"

text \<open>
  The lines of a byte string, each with its newline. The header of a file is everything
  up to the end of the first line that contains \<open>end_header\<close>, the body is what follows;
  a file without such a line has no header.
\<close>

fun lines_of :: "byte list \<Rightarrow> byte list list" where
  "lines_of [] = []"
| "lines_of (b # bs) =
     (if b = 10 then [b] # lines_of bs
      else (case lines_of bs of [] \<Rightarrow> [[b]] | l # ls \<Rightarrow> (b # l) # ls))"

definition split_header :: "byte list \<Rightarrow> (byte list \<times> byte list) option" where
  "split_header content =
     (case dropWhile (\<lambda>l. \<not> contains (bytes_of ''end_header'') l) (lines_of content) of
        [] \<Rightarrow> None
      | l # rest \<Rightarrow>
          Some (concat (takeWhile (\<lambda>l. \<not> contains (bytes_of ''end_header'') l)
                         (lines_of content)) @ l,
                concat rest))"

text \<open>Sample G: five points declared with two float fields, the body holds one record.
  Sample H: a header with a byte that is not UTF-8.\<close>

definition hdrG :: "byte list" where
  "hdrG = ply_header [''ply'', ''format binary_little_endian 1.0'', ''element vertex 5'',
     ''property float x'', ''property float y'', ''end_header'']"

definition bodyG :: "byte list" where
  "bodyG = [0,0,128,63, 0,0,0,64]"

definition fsG :: filesys where
  "fsG = fs_of [(''g.ply'', hdrG @ bodyG)]"

definition hdrH :: "byte list" where
  "hdrH = [255, 10] @ ply_header [''end_header'']"

definition fsH :: filesys where
  "fsH = fs_of [(''h.ply'', hdrH)]"

(*PROPERTIES*)
section \<open>Properties of the reader\<close>

lemma fmt_size_pos: "0 < fmt_size p"
  by (cases p) auto

lemma calcsize_Nil [simp]: "calcsize [] = 0"
  by (simp add: calcsize_def)

lemma calcsize_Cons [simp]: "calcsize (p # ps) = fmt_size p + calcsize ps"
  by (simp add: calcsize_def)

lemma calcsize_ge_length: "length props \<le> calcsize props"
proof (induction props)
  case Nil
  show ?case by simp
next
  case (Cons p ps)
  have "1 \<le> fmt_size p" using fmt_size_pos [of p] by simp
  with Cons show ?case by simp
qed

lemma length_unpack_fields [simp]: "length (unpack_fields props data) = length props"
  by (induction props arbitrary: data) auto

lemma le_word_single: "le_word [b] = (b :: byte)"
  by simp

lemma is_uchar_byte: "is_uchar (PyInt (uint (b :: byte)))"
proof -
  have "uint b < 2 ^ 8" using uint_bounded [of b] by simp
  then show ?thesis by (simp add: is_uchar_def)
qed

lemma uchars_are_byte_fields:
  "calcsize props \<le> length data \<Longrightarrow>
   filter is_uchar (unpack_fields props data) = map (\<lambda>b. PyInt (uint b)) (byte_fields props data)"
proof (induction props arbitrary: data)
  case Nil
  show ?case by simp
next
  case (Cons p ps)
  have rest: "calcsize ps \<le> length (drop (fmt_size p) data)"
    using Cons.prems by simp
  note IH = Cons.IH [OF rest]
  show ?case
  proof (cases p)
    case Fmt_B
    from Cons.prems Fmt_B obtain d ds where d: "data = d # ds"
      by (cases data) auto
    show ?thesis using IH Fmt_B d by (simp add: is_uchar_byte)
  next
    case Fmt_f
    then show ?thesis using IH by (simp add: is_uchar_def)
  next
    case Fmt_d
    then show ?thesis using IH by (simp add: is_uchar_def)
  qed
qed

lemma length_byte_fields:
  "calcsize props \<le> length data \<Longrightarrow>
   length (byte_fields props data) = length (filter (\<lambda>p. p = Fmt_B) props)"
proof (induction props arbitrary: data)
  case Nil
  show ?case by simp
next
  case (Cons p ps)
  have rest: "calcsize ps \<le> length (drop (fmt_size p) data)"
    using Cons.prems by simp
  from Cons.prems have "p = Fmt_B \<Longrightarrow> data \<noteq> []" by auto
  then show ?case using Cons.IH [OF rest] by (cases data) auto
qed

lemma decode_record_length:
  "decode_record props data = Inr v \<Longrightarrow> length data = calcsize props \<and> 3 \<le> length props"
  by (auto simp: decode_record_def struct_unpack_def Let_def split: if_splits)

lemma decode_record_ok:
  "length data = calcsize props \<Longrightarrow> 3 \<le> length props \<Longrightarrow> \<exists>v. decode_record props data = Inr v"
  by (simp add: decode_record_def struct_unpack_def Let_def)

lemma decode_record_position:
  assumes "decode_record props data = Inr v"
  shows "position v = (unpack_fields props data ! 0, unpack_fields props data ! 1,
                       unpack_fields props data ! 2)"
  using assms
  by (auto simp: decode_record_def struct_unpack_def Let_def position_def split: if_splits)

lemma decode_record_color:
  assumes "decode_record props data = Inr v"
  shows "color v =
     (case byte_fields props data of
        r # g # b # _ \<Rightarrow> (PyInt (uint r), PyInt (uint g), PyInt (uint b))
      | _ \<Rightarrow> (PyInt 128, PyInt 128, PyInt 128))"
proof -
  from assms have len: "length data = calcsize props"
    by (simp add: decode_record_length)
  then have u: "filter is_uchar (unpack_fields props data)
                = map (\<lambda>b. PyInt (uint b)) (byte_fields props data)"
    by (simp add: uchars_are_byte_fields)
  show ?thesis
  proof (cases "3 \<le> length (byte_fields props data)")
    case True
    then obtain r g b rest where bf: "byte_fields props data = r # g # b # rest"
      by (auto simp: numeral_3_eq_3 Suc_le_length_iff)
    with assms u show ?thesis
      by (auto simp: decode_record_def struct_unpack_def Let_def color_def split: if_splits)
  next
    case False
    then have "case byte_fields props data of r # g # b # _ \<Rightarrow> False | _ \<Rightarrow> True"
      by (auto split: list.splits)
    with assms u False show ?thesis
      by (auto simp: decode_record_def struct_unpack_def Let_def color_def
               split: if_splits list.splits)
  qed
qed

lemma chunk_Suc: "chunk props f (Suc i) = chunk props (drop (calcsize props) f) i"
  by (simp add: chunk_def add.commute)

lemma chunk_0: "chunk props f 0 = take (calcsize props) f"
  by (simp add: chunk_def)

lemma read_vertices_rows:
  "read_vertices props n f acc = Inr vs \<Longrightarrow>
   \<exists>k \<le> n. length vs = length acc + k \<and> take (length acc) vs = acc
     \<and> (\<forall>i < k. decode_record props (chunk props f i) = Inr (vs ! (length acc + i)))
     \<and> k * calcsize props \<le> length f
     \<and> (k < n \<longrightarrow> length f < (k + 1) * calcsize props)"
proof (induction n arbitrary: f acc)
  case 0
  then show ?case by simp
next
  case (Suc n)
  let ?s = "calcsize props"
  show ?case
  proof (cases "length f < ?s")
    case True
    with Suc.prems have "vs = acc" by (simp add: Let_def)
    with True show ?thesis by (intro exI [of _ 0]) simp
  next
    case False
    with Suc.prems obtain v where v: "decode_record props (take ?s f) = Inr v"
      and rec: "read_vertices props n (drop ?s f) (acc @ [v]) = Inr vs"
      by (auto simp: Let_def split: sum.splits)
    from Suc.IH [OF rec] obtain k where k: "k \<le> n" "length vs = length (acc @ [v]) + k"
      "take (length (acc @ [v])) vs = acc @ [v]"
      "\<forall>i < k. decode_record props (chunk props (drop ?s f) i) = Inr (vs ! (length (acc @ [v]) + i))"
      "k * ?s \<le> length (drop ?s f)"
      "k < n \<longrightarrow> length (drop ?s f) < (k + 1) * ?s"
      by blast
    have tk: "take (length acc) vs = acc"
      using k(3) by (metis append_eq_conv_conj length_append_singleton take_Suc_conv_app_nth
          take_all_iff butlast_snoc butlast_take diff_Suc_1 length_take min.absorb2 k(2) le_add1)
    have v0: "vs ! length acc = v"
      using k(3) by (metis length_append_singleton lessI nth_append_length nth_take)
    have each: "decode_record props (chunk props f i) = Inr (vs ! (length acc + i))" if "i < Suc k" for i
    proof (cases i)
      case 0
      then show ?thesis using v v0 by (simp add: chunk_0)
    next
      case (Suc j)
      with that have "j < k" by simp
      with k(4) Suc show ?thesis by (simp add: chunk_Suc)
    qed
    show ?thesis
    proof (intro exI [of _ "Suc k"] conjI allI impI)
      show "Suc k \<le> Suc n" using k(1) by simp
      show "length vs = length acc + Suc k" using k(2) by simp
      show "take (length acc) vs = acc" by (rule tk)
      show "decode_record props (chunk props f i) = Inr (vs ! (length acc + i))" if "i < Suc k" for i
        using each that by simp
      show "Suc k * ?s \<le> length f" using k(5) False by simp
      show "length f < (Suc k + 1) * ?s" if "Suc k < Suc n"
        using that k(6) False by simp
    qed
  qed
qed

lemma read_vertices_ok:
  "3 \<le> length props \<Longrightarrow>
   \<exists>vs. read_vertices props n f acc = Inr vs
     \<and> length vs = length acc + min n (length f div calcsize props)"
proof (induction n arbitrary: f acc)
  case 0
  then show ?case by simp
next
  case (Suc n)
  let ?s = "calcsize props"
  have spos: "0 < ?s" using Suc.prems calcsize_ge_length [of props] by simp
  show ?case
  proof (cases "length f < ?s")
    case True
    then show ?thesis by (simp add: Let_def)
  next
    case False
    then have "length (take ?s f) = ?s" by simp
    from decode_record_ok [OF this Suc.prems] obtain v
      where v: "decode_record props (take ?s f) = Inr v" by blast
    from Suc.IH [OF Suc.prems, of "drop ?s f" "acc @ [v]"] obtain vs
      where vs: "read_vertices props n (drop ?s f) (acc @ [v]) = Inr vs"
        "length vs = length (acc @ [v]) + min n (length (drop ?s f) div ?s)" by blast
    have "length f div ?s = Suc (length (drop ?s f) div ?s)"
      using False spos by (simp add: le_div_geq not_less)
    then have "Suc (min n (length (drop ?s f) div ?s)) = min (Suc n) (length f div ?s)"
      by simp
    with vs v False show ?thesis by (simp add: Let_def)
  qed
qed

lemma parse_ply_unfold:
  assumes "files fs path = Some content"
    and "read_header [] content = Some (header, body)"
    and "decode_utf8 header = Inr header_str"
  shows "parse_ply L fs path =
     Some (case find_vertex_count L (split_on 10 header_str) of Inl e \<Rightarrow> Inl e
           | Inr n \<Rightarrow>
               (case read_vertices (find_props (split_on 10 header_str)) (nat n) body [] of
                  Inl e \<Rightarrow> Inl e
                | Inr vs \<Rightarrow> Inr (np_array L vs)))"
  using assms by (simp add: parse_ply_def parse_body_def)

lemma parse_ply_rows:
  assumes "files fs path = Some content"
    and "read_header [] content = Some (header, body)"
    and "decode_utf8 header = Inr header_str"
    and "parse_ply L fs path = Some (Inr vertices)"
  shows "\<exists>n vs. find_vertex_count L (split_on 10 header_str) = Inr n
     \<and> read_vertices (find_props (split_on 10 header_str)) (nat n) body [] = Inr vs
     \<and> vertices = np_array L vs"
  using assms(4) unfolding parse_ply_unfold [OF assms(1,2,3)]
  by (auto split: sum.splits)

lemma len_np_array [simp]: "len (np_array L vs) = length vs"
  by (simp add: len_def np_array_def)

lemma rows_of_np_array [simp]: "rows_of (np_array L vs) = map (map_row (np_float32 L)) vs"
  by (simp add: rows_of_def np_array_def)

lemma color_map_row [simp]: "color (map_row h v) = map_pos h (color v)"
  by (cases v) (simp add: color_def map_row_def map_pos_def)

lemma position_map_row [simp]: "position (map_row h v) = map_pos h (position v)"
  by (cases v) (simp add: position_def map_row_def map_pos_def)

lemma decode_record_color_if:
  assumes "decode_record props data = Inr v"
  shows "color v =
     (if 3 \<le> length (filter (\<lambda>p. p = Fmt_B) props)
      then (PyInt (uint (byte_fields props data ! 0)), PyInt (uint (byte_fields props data ! 1)),
            PyInt (uint (byte_fields props data ! 2)))
      else (PyInt 128, PyInt 128, PyInt 128))"
proof -
  from assms have len: "calcsize props \<le> length data"
    by (simp add: decode_record_length)
  note n = length_byte_fields [OF len]
  show ?thesis
  proof (cases "3 \<le> length (filter (\<lambda>p. p = Fmt_B) props)")
    case True
    with n have "3 \<le> length (byte_fields props data)" by simp
    then obtain r g b rest where "byte_fields props data = r # g # b # rest"
      by (auto simp: numeral_3_eq_3 Suc_le_length_iff)
    with True show ?thesis by (simp add: decode_record_color [OF assms])
  next
    case False
    with n have "length (byte_fields props data) < 3" by simp
    then have "(case byte_fields props data of
        r # g # b # _ \<Rightarrow> (PyInt (uint r), PyInt (uint g), PyInt (uint b))
      | _ \<Rightarrow> (PyInt 128, PyInt 128, PyInt 128)) = (PyInt 128, PyInt 128, PyInt 128)"
      by (auto split: list.splits)
    with False show ?thesis by (simp add: decode_record_color [OF assms])
  qed
qed

text \<open>
  Claim C3. In every decoded record the colour is made of the first three byte-kind
  values of the record, in field declaration order (each stored as a float32); when the
  schema declares fewer than three byte-kind fields, the colour of every record is
  (128, 128, 128).
\<close>

theorem color_first_three_bytes:
  assumes "files fs path = Some content"
    and "read_header [] content = Some (header, body)"
    and "decode_utf8 header = Inr header_str"
    and "parse_ply L fs path = Some (Inr vertices)"
    and "i < len vertices"
  shows "color (rows_of vertices ! i) =
     map_pos (np_float32 L)
       (if 3 \<le> length (filter (\<lambda>p. p = Fmt_B) (find_props (split_on 10 header_str)))
        then (PyInt (uint (byte_fields (find_props (split_on 10 header_str))
                             (chunk (find_props (split_on 10 header_str)) body i) ! 0)),
              PyInt (uint (byte_fields (find_props (split_on 10 header_str))
                             (chunk (find_props (split_on 10 header_str)) body i) ! 1)),
              PyInt (uint (byte_fields (find_props (split_on 10 header_str))
                             (chunk (find_props (split_on 10 header_str)) body i) ! 2)))
        else (PyInt 128, PyInt 128, PyInt 128))"
proof -
  let ?props = "find_props (split_on 10 header_str)"
  from parse_ply_rows [OF assms(1-4)] obtain n vs
    where rv: "read_vertices ?props (nat n) body [] = Inr vs"
      and v: "vertices = np_array L vs" by blast
  from assms(5) v have i: "i < length vs" by simp
  from read_vertices_rows [OF rv] obtain k where k: "length vs = k"
    "\<forall>j < k. decode_record ?props (chunk ?props body j) = Inr (vs ! j)"
    by auto
  with i have "decode_record ?props (chunk ?props body i) = Inr (vs ! i)" by simp
  from decode_record_color_if [OF this] show ?thesis
    using i v by simp
qed

lemma sampleB_header: "read_header [] (hdrB @ bodyB) = Some (hdrB, bodyB)"
  by (simp add: read_header.simps hdrB_def ply_header_def bytes_of_def startswith_def bodyB_def)

lemma sampleB_decode: "decode_utf8 hdrB = Inr (map unat hdrB)"
  by (simp add: decode_utf8_def hdrB_def ply_header_def bytes_of_def cons_ok_def)

lemma sampleB_props:
  "find_props (split_on 10 (map unat hdrB)) = [Fmt_f, Fmt_f, Fmt_f, Fmt_B, Fmt_B, Fmt_B]"
  by (simp add: hdrB_def ply_header_def bytes_of_def str_of_def startswith_def)

lemma sampleB_count: "find_vertex_count L (split_on 10 (map unat hdrB)) = Inr 2"
  by (simp add: hdrB_def ply_header_def bytes_of_def str_of_def startswith_def isspace_def
      py_int_def strip_def to_ascii_def unsigned_val_def digit_of_def)

lemma sampleB_file: "files fsB ''b.ply'' = Some (hdrB @ bodyB)"
  by (simp add: fsB_def fs_of_def)

lemma read_vertices_numeral:
  "read_vertices props (numeral k) f acc = read_vertices props (Suc (pred_numeral k)) f acc"
  by (simp add: numeral_eq_Suc)

lemma sampleB_vertices:
  "read_vertices [Fmt_f, Fmt_f, Fmt_f, Fmt_B, Fmt_B, Fmt_B] 2 bodyB [] =
     Inr [(PyFloat_f 0, PyFloat_f 0, PyFloat_f 0, PyInt 10, PyInt 20, PyInt 30),
          (PyFloat_f 0x40800000, PyFloat_f 0, PyFloat_f 0, PyInt 40, PyInt 50, PyInt 60)]"
  by (simp add: bodyB_def read_vertices_numeral decode_record_def struct_unpack_def is_uchar_def)

lemma sampleB_parse:
  "parse_ply exact_lib fsB ''b.ply'' =
     Some (Inr (Arr2 [(0, 0, 0, 10, 20, 30), (4, 0, 0, 40, 50, 60)]))"
  unfolding parse_ply_unfold [OF sampleB_file sampleB_header sampleB_decode]
  by (simp add: sampleB_count sampleB_props sampleB_vertices np_array_def map_row_def
      exact_lib_def rat_of_pyval_def f32_value_def pow2_def)

theorem color_first_three_bytes_witness:
  "color (rows_of (Arr2 [(0, 0, 0, 10, 20, 30), (4, 0, 0, 40, 50, 60 :: rat)]) ! 1) = (40, 50, 60)"
  using color_first_three_bytes [OF sampleB_file sampleB_header sampleB_decode sampleB_parse,
      of 1]
  by (simp add: len_def sampleB_props chunk_def bodyB_def rows_of_def color_def map_pos_def
      exact_lib_def rat_of_pyval_def)

lemma bit_length_0 [simp]: "bit_length 0 = 0"
  by (simp add: bit_length.simps)

lemma target_points_of_empty:
  assumes "finite_double ratio"
  shows "target_points_of 0 ratio = Inr 0"
proof -
  from assms obtain s m e where r: "ratio = Fin s m e" and e: "- 1074 \<le> e" "e \<le> 971"
    by (auto simp: finite_double_def split: pyfloat.splits)
  have "float_of_len 0 = Inr (Fin False 0 0)"
    by (simp add: float_of_len_def round_double_def finite_or_inf_def)
  moreover have "float_mul (Fin False 0 0) ratio = Fin s 0 e"
    using r e by (simp add: round_double_def finite_or_inf_def Let_def)
  ultimately show ?thesis
    by (simp add: target_points_of_def)
qed

lemma convert_to_splat_Arr1:
  assumes "finite_double ratio"
  shows "convert_to_splat L Arr1 output_path ratio fs = (Inl IndexError, fs)"
  using target_points_of_empty [OF assms]
  by (simp add: convert_to_splat_def subsample_def len_def normalize_def)

lemma read_vertices_empty:
  assumes "n = 0 \<or> length f < calcsize props"
  shows "read_vertices props n f [] = Inr []"
  using assms by (cases n) (auto simp: Let_def)

lemma np_array_Nil [simp]: "np_array L [] = Arr1"
  by (simp add: np_array_def)

lemma convert_unfold:
  assumes "parse_ply L fs input_path = Some (Inr vertices)"
  shows "convert L input_path output_path ratio fs
         = Some (convert_to_splat L vertices output_path ratio fs)"
  using assms by (simp add: convert_def)

text \<open>
  Claim C10. When the decoded table is empty, because the declared vertex count is 0 (or
  negative) or because the body ends before the first complete record, the encoder
  raises at the slice of the empty table, and the file system is as before: the output
  file is neither opened nor written.
\<close>

theorem empty_table_raises:
  assumes "files fs input_path = Some content"
    and "read_header [] content = Some (header, body)"
    and "decode_utf8 header = Inr header_str"
    and "find_vertex_count L (split_on 10 header_str) = Inr n"
    and "n \<le> 0 \<or> length body < calcsize (find_props (split_on 10 header_str))"
    and "finite_double ratio"
  shows "convert L input_path output_path ratio fs = Some (Inl IndexError, fs)"
proof -
  have "nat n = 0 \<or> length body < calcsize (find_props (split_on 10 header_str))"
    using assms(5) by auto
  from read_vertices_empty [OF this]
  have "parse_ply L fs input_path = Some (Inr Arr1)"
    unfolding parse_ply_unfold [OF assms(1-3)] using assms(4) by simp
  from convert_unfold [OF this] show ?thesis
    by (simp add: convert_to_splat_Arr1 [OF assms(6)])
qed

lemma sampleE_file: "files fsE ''e.ply'' = Some hdrE"
  by (simp add: fsE_def fs_of_def)

lemma sampleE_header: "read_header [] hdrE = Some (hdrE, [])"
  by (simp add: read_header.simps hdrE_def ply_header_def bytes_of_def startswith_def)

lemma sampleE_decode: "decode_utf8 hdrE = Inr (map unat hdrE)"
  by (simp add: decode_utf8_def hdrE_def ply_header_def bytes_of_def cons_ok_def)

lemma sampleE_count: "find_vertex_count L (split_on 10 (map unat hdrE)) = Inr 0"
  by (simp add: hdrE_def ply_header_def bytes_of_def str_of_def startswith_def isspace_def
      py_int_def strip_def to_ascii_def unsigned_val_def digit_of_def)

lemma finite_double_one: "finite_double (Fin False 1 0)"
  by (simp add: finite_double_def)

theorem empty_table_raises_witness:
  "convert exact_lib ''e.ply'' ''e.splat'' (Fin False 1 0) fsE = Some (Inl IndexError, fsE)"
proof -
  have "(0::int) \<le> 0 \<or> length ([] :: byte list) < calcsize (find_props (split_on 10 (map unat hdrE)))"
    by simp
  from empty_table_raises [OF sampleE_file sampleE_header sampleE_decode sampleE_count this
      finite_double_one]
  show ?thesis .
qed

lemma find_vertex_count_none:
  assumes "\<forall>line \<in> set lines. \<not> startswith line (str_of ''element vertex'')"
  shows "find_vertex_count L lines = Inr 0"
  using assms by (induction lines) auto

lemma sampleD_file: "files fsD ''d.ply'' = Some (hdrD @ bodyD)"
  by (simp add: fsD_def fs_of_def)

lemma sampleD_header: "read_header [] (hdrD @ bodyD) = Some (hdrD, bodyD)"
  by (simp add: read_header.simps hdrD_def ply_header_def bytes_of_def startswith_def bodyD_def)

lemma sampleD_decode: "decode_utf8 hdrD = Inr (map unat hdrD)"
  by (simp add: decode_utf8_def hdrD_def ply_header_def bytes_of_def cons_ok_def)

lemma sampleD_no_vertex_line:
  "\<forall>line \<in> set (split_on 10 (map unat hdrD)). \<not> startswith line (str_of ''element vertex'')"
  by (simp add: hdrD_def ply_header_def bytes_of_def str_of_def startswith_def)

lemma sampleD_count: "find_vertex_count L (split_on 10 (map unat hdrD)) = Inr 0"
  by (simp add: hdrD_def ply_header_def bytes_of_def str_of_def startswith_def)

text \<open>
  The claim as stated asks for a reported error on this input. The reader returns a
  table instead.
\<close>

theorem missing_vertex_line_counterexample:
  "parse_ply exact_lib fsD ''d.ply'' \<noteq> Some (Inl ParseError)
   \<and> parse_ply exact_lib fsD ''d.ply'' = Some (Inr (np_array exact_lib []))"
  unfolding parse_ply_unfold [OF sampleD_file sampleD_header sampleD_decode]
  by (simp add: sampleD_count)

lemma startswith_append: "startswith xs pat \<Longrightarrow> startswith (xs @ ys) pat"
  by (auto simp: startswith_def) (metis append_eq_conv_conj append_take_drop_id length_take min.cobounded1 take_all_iff take_append append.assoc)

lemma contains_appendI1: "contains pat xs \<Longrightarrow> contains pat (xs @ ys)"
proof (induction xs)
  case Nil
  then show ?case by (cases ys) (auto simp: startswith_def)
next
  case (Cons x xs)
  then show ?case using startswith_append [of "x # xs" pat ys] by auto
qed

lemma contains_appendI2: "contains pat ys \<Longrightarrow> contains pat (xs @ ys)"
  by (induction xs) auto

lemma readline_append: "readline f = (l, r) \<Longrightarrow> f = l @ r"
  by (induction f arbitrary: l r) (auto split: if_splits prod.splits)

lemma read_header_contains:
  assumes "read_header header f = Some y"
  shows "contains (bytes_of ''end_header'') f"
proof (rule read_header.raw_induct
    [where P = "\<lambda>header f y. contains (bytes_of ''end_header'') f", OF _ assms])
  fix rh :: "byte list \<Rightarrow> byte list \<Rightarrow> (byte list \<times> byte list) option"
  fix header f :: "byte list" and y
  assume IH: "\<And>h b y. rh h b = Some y \<Longrightarrow> contains (bytes_of ''end_header'') b"
  assume step: "(case readline f of
      (line, f') \<Rightarrow>
        if contains (bytes_of ''end_header'') line
        then Some (header @ line, f') else rh (header @ line) f') = Some y"
  obtain l r where lr: "readline f = (l, r)" by (cases "readline f")
  then have f: "f = l @ r" by (rule readline_append)
  show "contains (bytes_of ''end_header'') f"
  proof (cases "contains (bytes_of ''end_header'') l")
    case True
    then show ?thesis unfolding f by (rule contains_appendI1)
  next
    case False
    with step lr have "rh (header @ l) r = Some y" by simp
    from IH [OF this] show ?thesis unfolding f by (rule contains_appendI2)
  qed
qed

lemma no_end_header_diverges:
  assumes "files fs path = Some content"
    and "\<not> contains (bytes_of ''end_header'') content"
  shows "parse_ply L fs path = None"
proof -
  have "read_header [] content = None"
    using read_header_contains [of "[]" content] assms(2) by (cases "read_header [] content") auto
  with assms(1) show ?thesis by (simp add: parse_ply_def)
qed

lemma sampleC_file: "files fsC ''c.ply'' = Some (hdrC @ bodyB @ [1, 2, 3])"
  by (simp add: fsC_def fs_of_def)

lemma sampleC_header: "read_header [] (hdrC @ bodyB @ [1, 2, 3]) = Some (hdrC, bodyB @ [1, 2, 3])"
  by (simp add: read_header.simps hdrC_def ply_header_def bytes_of_def startswith_def bodyB_def)

lemma sampleC_decode: "decode_utf8 hdrC = Inr (map unat hdrC)"
  by (simp add: decode_utf8_def hdrC_def ply_header_def bytes_of_def cons_ok_def)

lemma sampleC_props:
  "find_props (split_on 10 (map unat hdrC)) = [Fmt_f, Fmt_f, Fmt_f, Fmt_B, Fmt_B, Fmt_B]"
  by (simp add: hdrC_def ply_header_def bytes_of_def str_of_def startswith_def)

lemma sampleC_count: "find_vertex_count L (split_on 10 (map unat hdrC)) = Inr 5"
  by (simp add: hdrC_def ply_header_def bytes_of_def str_of_def startswith_def isspace_def
      py_int_def strip_def to_ascii_def unsigned_val_def digit_of_def)

lemma sampleA_file: "files fsA ''a.ply'' = Some (hdrA @ bodyA)"
  by (simp add: fsA_def fs_of_def)

lemma sampleA_header: "read_header [] (hdrA @ bodyA) = Some (hdrA, bodyA)"
  by (simp add: read_header.simps hdrA_def ply_header_def bytes_of_def startswith_def bodyA_def)

lemma sampleA_decode: "decode_utf8 hdrA = Inr (map unat hdrA)"
  by (simp add: decode_utf8_def hdrA_def ply_header_def bytes_of_def cons_ok_def)

lemma sampleA_props:
  "find_props (split_on 10 (map unat hdrA)) = [Fmt_B, Fmt_B, Fmt_B, Fmt_f, Fmt_f, Fmt_f]"
  by (simp add: hdrA_def ply_header_def bytes_of_def str_of_def startswith_def)

lemma sampleA_count: "find_vertex_count L (split_on 10 (map unat hdrA)) = Inr 1"
  by (simp add: hdrA_def ply_header_def bytes_of_def str_of_def startswith_def isspace_def
      py_int_def strip_def to_ascii_def unsigned_val_def digit_of_def)

lemma sampleA_values:
  "unpack_fields [Fmt_B, Fmt_B, Fmt_B, Fmt_f, Fmt_f, Fmt_f] bodyA =
     [PyInt 10, PyInt 20, PyInt 30, PyFloat_f 0x3F800000, PyFloat_f 0x40000000,
      PyFloat_f 0x40400000]"
  by (simp add: bodyA_def)

lemma sampleA_vertices:
  "read_vertices (find_props (split_on 10 (map unat hdrA))) (nat 1) bodyA [] =
     Inr [(PyInt 10, PyInt 20, PyInt 30, PyInt 10, PyInt 20, PyInt 30)]"
  by (simp add: sampleA_props bodyA_def decode_record_def struct_unpack_def is_uchar_def)

text \<open>
  Claim C1, at a file whose colour fields are declared before its position fields
  (red, green, blue = 10, 20, 30; x, y, z = 1.0, 2.0, 3.0): the float-kind values of the
  record are 1.0, 2.0, 3.0, and the position the reader stores is (10, 20, 30), the first
  three values whatever their kind.
\<close>

theorem position_is_first_three_values:
  "filter (\<lambda>v. \<not> is_uchar v) (unpack_fields (find_props (split_on 10 (map unat hdrA))) bodyA)
     = [PyFloat_f 0x3F800000, PyFloat_f 0x40000000, PyFloat_f 0x40400000]
   \<and> map rat_of_pyval [PyFloat_f 0x3F800000, PyFloat_f 0x40000000, PyFloat_f 0x40400000]
     = [1, 2, 3]
   \<and> parse_ply exact_lib fsA ''a.ply'' = Some (Inr (Arr2 [(10, 20, 30, 10, 20, 30)]))"
proof (intro conjI)
  show "filter (\<lambda>v. \<not> is_uchar v) (unpack_fields (find_props (split_on 10 (map unat hdrA))) bodyA)
     = [PyFloat_f 0x3F800000, PyFloat_f 0x40000000, PyFloat_f 0x40400000]"
    unfolding sampleA_props sampleA_values by (simp add: is_uchar_def)
  show "map rat_of_pyval [PyFloat_f 0x3F800000, PyFloat_f 0x40000000, PyFloat_f 0x40400000]
     = [1, 2, 3]"
    by (simp add: rat_of_pyval_def f32_value_def pow2_def)
  show "parse_ply exact_lib fsA ''a.ply'' = Some (Inr (Arr2 [(10, 20, 30, 10, 20, 30)]))"
    unfolding parse_ply_unfold [OF sampleA_file sampleA_header sampleA_decode]
      sampleA_count sum.case sampleA_vertices
    by (simp add: np_array_def map_row_def exact_lib_def rat_of_pyval_def)
qed

text \<open>
  Claim C8, at a well-formed file that declares \<open>element vertex 0\<close> and is converted
  with ratio 1.0: the conversion raises \<open>IndexError\<close> and writes no output file, so no
  point count 0 is written.
\<close>

theorem empty_cloud_writes_no_count:
  "find_vertex_count exact_lib (split_on 10 (map unat hdrE)) = Inr 0
   \<and> convert exact_lib ''e.ply'' ''e.splat'' (Fin False 1 0) fsE = Some (Inl IndexError, fsE)
   \<and> files fsE ''e.splat'' = None"
proof (intro conjI)
  show "find_vertex_count exact_lib (split_on 10 (map unat hdrE)) = Inr 0"
    by (rule sampleE_count)
  have "parse_ply exact_lib fsE ''e.ply'' = Some (Inr Arr1)"
    unfolding parse_ply_unfold [OF sampleE_file sampleE_header sampleE_decode]
    by (simp add: sampleE_count)
  then show "convert exact_lib ''e.ply'' ''e.splat'' (Fin False 1 0) fsE = Some (Inl IndexError, fsE)"
    by (simp only: convert_unfold convert_to_splat_Arr1 [OF finite_double_one])
  show "files fsE ''e.splat'' = None"
    by (simp add: fsE_def fs_of_def)
qed

lemma sum_case_None:
  assumes "(case s of Inl e \<Rightarrow> (Some e, a) | Inr x \<Rightarrow> f x) = (None, b)"
  obtains x where "s = Inr x" and "f x = (None, b)"
  using assms by (cases s) auto

lemma write_point_None:
  assumes "write_point L p v out = (None, out')"
  shows "\<exists>bs. splat_record L p v = Some bs \<and> out' = out @ bs \<and> length bs = 10 \<and> bs ! 9 = 255"
proof -
  obtain x y z where p: "p = (x, y, z)" by (cases p)
  obtain cr cg cb where c: "color v = (cr, cg, cb)" by (cases "color v")
  note w = assms [unfolded write_point_def p c prod.case]
  from w obtain r where r: "int_of_float32 L cr = Inr r" by (rule sum_case_None)
  note w = w [unfolded r sum.case]
  from w obtain g where g: "int_of_float32 L cg = Inr g" by (rule sum_case_None)
  note w = w [unfolded g sum.case]
  from w obtain b where b: "int_of_float32 L cb = Inr b" by (rule sum_case_None)
  note w = w [unfolded b sum.case]
  from w obtain px where px: "pack_e L x = Inr px" by (rule sum_case_None)
  obtain x0 x1 where px': "px = (x0, x1)" by (cases px)
  note w = w [unfolded px px' sum.case prod.case]
  from w obtain py where py: "pack_e L y = Inr py" by (rule sum_case_None)
  obtain y0 y1 where py': "py = (y0, y1)" by (cases py)
  note w = w [unfolded py py' sum.case prod.case]
  from w obtain pz where pz: "pack_e L z = Inr pz" by (rule sum_case_None)
  obtain z0 z1 where pz': "pz = (z0, z1)" by (cases pz)
  note w = w [unfolded pz pz' sum.case prod.case]
  from w obtain cs where cs: "pack_BBBB r g b 255 = Inr cs"
    and out: "(None, out @ [x0, x1, y0, y1, z0, z1] @ cs) = (None :: py_error option, out')"
    by (rule sum_case_None)
  from cs have rng: "0 \<le> r \<and> r \<le> 255 \<and> 0 \<le> g \<and> g \<le> 255 \<and> 0 \<le> b \<and> b \<le> 255"
    and cs': "cs = [of_int r, of_int g, of_int b, 255]"
    by (auto simp: pack_BBBB_def split: if_splits)
  have "splat_record L p v = Some [x0, x1, y0, y1, z0, z1, of_int r, of_int g, of_int b, 255]"
    using rng by (simp add: splat_record_def p c r g b px px' py py' pz pz')
  moreover have "out' = out @ [x0, x1, y0, y1, z0, z1, of_int r, of_int g, of_int b, 255]"
    using out cs' by simp
  ultimately show ?thesis by simp
qed

lemma write_points_None:
  "write_points L pvs out = (None, out') \<Longrightarrow>
   \<exists>recs. map (\<lambda>(p, v). splat_record L p v) pvs = map Some recs \<and> out' = out @ concat recs
     \<and> (\<forall>r \<in> set recs. length r = 10 \<and> r ! 9 = 255)"
proof (induction pvs arbitrary: out)
  case Nil
  then show ?case by simp
next
  case (Cons pv pvs)
  obtain p v where pv: "pv = (p, v)" by (cases pv)
  from Cons.prems pv obtain mid where mid: "write_point L p v out = (None, mid)"
    and rest: "write_points L pvs mid = (None, out')"
    by (auto split: prod.splits option.splits)
  from write_point_None [OF mid] obtain bs where bs: "splat_record L p v = Some bs" "mid = out @ bs"
    "length bs = 10" "bs ! 9 = 255"
    by blast
  from Cons.IH [OF rest] obtain recs
    where recs: "map (\<lambda>(p, v). splat_record L p v) pvs = map Some recs" "out' = mid @ concat recs"
      "\<forall>r \<in> set recs. length r = 10 \<and> r ! 9 = 255"
    by blast
  show ?case
    by (rule exI [of _ "bs # recs"]) (simp add: pv bs recs)
qed

lemma concat_chunks:
  assumes "\<forall>r \<in> set recs. length r = n" and "i < length recs"
  shows "take n (drop (n * i) (concat recs)) = recs ! i"
  using assms
proof (induction recs arbitrary: i)
  case Nil
  then show ?case by simp
next
  case (Cons r recs)
  show ?case
  proof (cases i)
    case 0
    then show ?thesis using Cons.prems by simp
  next
    case (Suc j)
    with Cons.prems have "take n (drop (n * j) (concat recs)) = recs ! j" 
      by (intro Cons.IH) auto
    moreover have "length r = n" using Cons.prems by simp
    ultimately show ?thesis using Suc by simp
  qed
qed

lemma length_concat_chunks:
  "\<forall>r \<in> set recs. length r = n \<Longrightarrow> length (concat recs) = n * length recs"
  by (induction recs) auto

lemma le_nat_pack_I:
  assumes "pack_I n = Inr hdr"
  shows "le_nat hdr = n \<and> length hdr = 4"
proof -
  from assms have n: "n < 2 ^ 32"
    and hdr: "hdr = [of_nat n, of_nat (n div 256), of_nat (n div 65536), of_nat (n div 16777216)]"
    by (auto simp: pack_I_def split: if_splits)
  have 1: "n = n mod 256 + 256 * (n div 256)" by simp
  have d2: "n div 256 div 256 = n div 65536"
    using div_mult2_eq [of n 256 256, symmetric] by simp
  have d3: "n div 65536 div 256 = n div 16777216"
    using div_mult2_eq [of n 65536 256, symmetric] by simp
  have 2: "n div 256 = n div 256 mod 256 + 256 * (n div 65536)"
    using mult_div_mod_eq [of 256 "n div 256"] unfolding d2 by linarith
  have 3: "n div 65536 = n div 65536 mod 256 + 256 * (n div 16777216)"
    using mult_div_mod_eq [of 256 "n div 65536"] unfolding d3 by linarith
  have 4: "n div 16777216 mod 256 = n div 16777216" using n by simp
  have u: "unat (of_nat k :: byte) = k mod 256" for k
    by (simp add: unat_of_nat)
  have "le_nat hdr = n mod 256 + 256 * (n div 256 mod 256 + 256 * (n div 65536 mod 256
               + 256 * (n div 16777216 mod 256 + 256 * 0)))"
    unfolding hdr by (simp only: le_nat.simps u)
  also have "\<dots> = n mod 256 + 256 * (n div 256 mod 256 + 256 * (n div 65536 mod 256
               + 256 * (n div 16777216)))"
    unfolding 4 by simp
  also have "\<dots> = n"
    by (simp only: 3 [symmetric] 2 [symmetric] 1 [symmetric])
  finally show ?thesis by (simp add: hdr)
qed

lemma normalize_length:
  "normalize L vertices = Inr positions \<Longrightarrow> length positions = len vertices"
  by (auto simp: normalize_def len_def centered_def Let_def split: nparray.splits if_splits)

lemma len_Arr2 [simp]: "len (Arr2 rows) = length rows"
  by (simp add: len_def)

lemma convert_to_splat_success:
  assumes "convert_to_splat L vertices output_path ratio fs = (Inr ret, fs')"
  shows "\<exists>kept positions out. subsample L vertices ratio = Inr kept
     \<and> normalize L kept = Inr positions \<and> writable fs output_path
     \<and> write_file L positions kept = (None, out) \<and> ret = PyNone
     \<and> fs' = fs\<lparr>files := (files fs)(output_path \<mapsto> out)\<rparr>"
proof -
  from assms obtain kept where kept: "subsample L vertices ratio = Inr kept"
    by (cases "subsample L vertices ratio") (auto simp: convert_to_splat_def)
  from assms kept obtain positions where pos: "normalize L kept = Inr positions"
    by (cases "normalize L kept") (auto simp: convert_to_splat_def)
  from assms kept pos have w: "writable fs output_path"
    by (auto simp: convert_to_splat_def split: if_splits)
  obtain err out where wf: "write_file L positions kept = (err, out)"
    by (cases "write_file L positions kept")
  from assms kept pos w wf have "err = None" "ret = PyNone"
    "fs' = fs\<lparr>files := (files fs)(output_path \<mapsto> out)\<rparr>"
    by (auto simp: convert_to_splat_def split: option.splits)
  with kept pos w wf show ?thesis by blast
qed

lemma write_file_layout:
  assumes "write_file L positions kept = (None, out)"
    and "length positions = len kept"
  shows "le_nat (take 4 out) = len kept \<and> length out = 4 + 10 * len kept
     \<and> (\<forall>i < len kept. splat_record L (positions ! i) (rows_of kept ! i)
            = Some (take 10 (drop (4 + 10 * i) out)))
     \<and> (\<forall>i < len kept. out ! (4 + 10 * i + 9) = 255)"
proof -
  from assms(1) obtain hdr where hdr: "pack_I (len kept) = Inr hdr"
    and wp: "write_points L (zip positions (rows_of kept)) hdr = (None, out)"
    by (cases "pack_I (len kept)") (auto simp: write_file_def)
  from le_nat_pack_I [OF hdr] have h: "le_nat hdr = len kept" "length hdr = 4" by simp_all
  from write_points_None [OF wp] obtain recs
    where m: "map (\<lambda>(p, v). splat_record L p v) (zip positions (rows_of kept)) = map Some recs"
      and out: "out = hdr @ concat recs"
      and ten: "\<forall>r \<in> set recs. length r = 10 \<and> r ! 9 = 255" by blast
  have lr: "length (rows_of kept) = len kept"
    by (cases kept) (simp_all add: rows_of_def len_def)
  from m have "length (zip positions (rows_of kept)) = length recs"
    by (metis length_map)
  with assms(2) lr have n: "length recs = len kept" by simp
  have ten': "\<forall>r \<in> set recs. length r = 10" using ten by blast
  have len: "length out = 4 + 10 * len kept"
    unfolding out using h(2) length_concat_chunks [OF ten'] n by simp
  have rec: "take 10 (drop (4 + 10 * i) out) = recs ! i" if "i < len kept" for i
  proof -
    have "drop (4 + 10 * i) out = drop (10 * i) (concat recs)"
      unfolding out using h(2) by simp
    then show ?thesis using concat_chunks [OF ten', of i] that n by simp
  qed
  have sr: "splat_record L (positions ! i) (rows_of kept ! i) = Some (recs ! i)" if "i < len kept" for i
  proof -
    have "map (\<lambda>(p, v). splat_record L p v) (zip positions (rows_of kept)) ! i = map Some recs ! i"
      using m by simp
    then show ?thesis using that assms(2) lr n by simp
  qed
  have a: "out ! (4 + 10 * i + 9) = 255" if "i < len kept" for i
  proof -
    have "recs ! i \<in> set recs" using that n by simp
    with ten have "recs ! i ! 9 = 255" by blast
    then have "take 10 (drop (4 + 10 * i) out) ! 9 = 255" using rec [OF that] by simp
    moreover have "4 + 10 * i + 9 < length out" using len that by simp
    ultimately show ?thesis by (simp add: add.commute)
  qed
  from h(1) h(2) out have "le_nat (take 4 out) = len kept" by simp
  with len rec sr a show ?thesis by simp
qed

text \<open>
  Claim C6. A conversion that returns has written a file that starts with the number of
  records kept, as four little-endian bytes, followed by one 10-byte record for each kept
  row, in order: x, y, z as packed half-precision floats, the truncated colour
  components as three unsigned bytes, and the byte 255. The file has
  4 + 10 * count bytes.
\<close>

theorem splat_layout:
  assumes "convert_to_splat L vertices output_path ratio fs = (Inr ret, fs')"
  shows "\<exists>kept positions out.
      subsample L vertices ratio = Inr kept \<and> normalize L kept = Inr positions
    \<and> files fs' output_path = Some out
    \<and> le_nat (take 4 out) = len kept
    \<and> length out = 4 + 10 * len kept
    \<and> (\<forall>i < len kept. splat_record L (positions ! i) (rows_of kept ! i)
           = Some (take 10 (drop (4 + 10 * i) out)))
    \<and> (\<forall>i < len kept. out ! (4 + 10 * i + 9) = 255)"
proof -
  from convert_to_splat_success [OF assms] obtain kept positions out
    where k: "subsample L vertices ratio = Inr kept" "normalize L kept = Inr positions"
      "write_file L positions kept = (None, out)"
      "fs' = fs\<lparr>files := (files fs)(output_path \<mapsto> out)\<rparr>" by blast
  from k(4) have f: "files fs' output_path = Some out" by simp
  from write_file_layout [OF k(3) normalize_length [OF k(2)]] k(1,2) f
  show ?thesis by blast
qed

lemma sampleB_target: "target_points_of (len (Arr2 rowsB)) (Fin False 1 0) = Inr 2"
  by (simp add: len_def rowsB_def target_points_of_def float_of_len_def round_double_def
      finite_or_inf_def bit_length.simps Let_def)

lemma sampleB_subsample: "subsample exact_lib (Arr2 rowsB) (Fin False 1 0) = Inr (Arr2 rowsB)"
  unfolding subsample_def sampleB_target by (simp add: len_def rowsB_def)

lemma sampleB_normalize:
  "normalize exact_lib (Arr2 rowsB) = Inr [(- 10, 0, 0), (10, 0, 0)]"
  by (simp add: normalize_def rowsB_def centered_def position_def coords_def map_pos_def
      exact_lib_def Let_def)

lemma pack_half_10: "pack_half 10 = Inr (0, 73)"
  by (simp add: pack_half_def half_bits_def half_exponent_def pow2_def rne_rat_def Let_def
      upto.simps)

lemma pack_half_m10: "pack_half (- 10) = Inr (0, 201)"
  by (simp add: pack_half_def half_bits_def half_exponent_def pow2_def rne_rat_def Let_def
      upto.simps)

lemma pack_half_0: "pack_half 0 = Inr (0, 0)"
  by (simp add: pack_half_def half_bits_def half_exponent_def pow2_def rne_rat_def Let_def
      upto.simps)

lemma sampleB_write:
  "write_file exact_lib [(- 10, 0, 0), (10, 0, 0)] (Arr2 rowsB) =
     (None, [2, 0, 0, 0,  0, 201, 0, 0, 0, 0, 10, 20, 30, 255,  0, 73, 0, 0, 0, 0, 40, 50, 60, 255])"
  by (simp add: write_file_def pack_I_def len_def rows_of_def rowsB_def write_point_def
      color_def exact_lib_def trunc_rat_def pack_half_10 pack_half_m10 pack_half_0
      pack_BBBB_def)

lemma sampleB_convert_to_splat:
  "convert_to_splat exact_lib (Arr2 rowsB) ''b.splat'' (Fin False 1 0) fsB =
     (Inr PyNone, fsB\<lparr>files := (files fsB)(''b.splat'' \<mapsto>
        [2, 0, 0, 0,  0, 201, 0, 0, 0, 0, 10, 20, 30, 255,  0, 73, 0, 0, 0, 0, 40, 50, 60, 255])\<rparr>)"
  unfolding convert_to_splat_def sampleB_subsample sum.case sampleB_normalize sampleB_write
  by (simp add: fsB_def fs_of_def)

theorem splat_layout_witness:
  "\<exists>out. files (snd (convert_to_splat exact_lib (Arr2 rowsB) ''b.splat'' (Fin False 1 0) fsB))
            ''b.splat'' = Some out
     \<and> le_nat (take 4 out) = 2 \<and> length out = 24 \<and> out ! 13 = 255 \<and> out ! 23 = 255"
proof -
  from splat_layout [OF sampleB_convert_to_splat] obtain kept positions out
    where k: "subsample exact_lib (Arr2 rowsB) (Fin False 1 0) = Inr kept"
      and f: "files (fsB\<lparr>files := (files fsB)(''b.splat'' \<mapsto>
        [2, 0, 0, 0,  0, 201, 0, 0, 0, 0, 10, 20, 30, 255,  0, 73, 0, 0, 0, 0, 40, 50, 60, 255])\<rparr>)
          ''b.splat'' = Some out"
      and n: "le_nat (take 4 out) = len kept" "length out = 4 + 10 * len kept"
      and a: "\<forall>i < len kept. out ! (4 + 10 * i + 9) = 255"
    by blast
  from k have "kept = Arr2 rowsB" unfolding sampleB_subsample by simp
  then have kept: "len kept = 2" by (simp add: rowsB_def)
  from a kept have a2: "\<forall>i < 2. out ! (4 + 10 * i + 9) = 255" by simp
  have "out ! (4 + 10 * 0 + 9) = 255" using a2 by (rule allE [of _ 0]) simp
  moreover have "out ! (4 + 10 * 1 + 9) = 255" using a2 by (rule allE [of _ 1]) simp
  ultimately have "out ! 13 = 255" "out ! 23 = 255" by simp_all
  with f n kept show ?thesis
    unfolding sampleB_convert_to_splat by simp
qed

lemma cons_ok_Inl: "cons_ok x r = Inl e \<Longrightarrow> r = Inl e"
  by (cases r) (simp_all add: cons_ok_def)

lemma utf8_error: "utf8 bs = Inl e \<Longrightarrow> e = UnicodeDecodeError"
proof (induction bs rule: utf8.induct)
  case 1
  then show ?case by simp
next
  case (2 b0 bs)
  show ?case
  proof (cases "b0 < 128")
    case True
    with 2 show ?thesis by (auto dest: cons_ok_Inl)
  next
    case False
    note b0 = this
    show ?thesis
    proof (cases bs)
      case Nil
      with 2(5) b0 show ?thesis by simp
    next
      case (Cons b1 bs1)
      note bs = this
      show ?thesis
      proof (cases "valid2 b0 b1")
        case True
        with 2(2) [OF b0 bs True] 2(5) b0 bs show ?thesis by (auto dest: cons_ok_Inl)
      next
        case False
        note v2 = this
        show ?thesis
        proof (cases bs1)
          case Nil
          with 2(5) b0 bs v2 show ?thesis by simp
        next
          case (Cons b2 bs2)
          note bs1 = this
          show ?thesis
          proof (cases "valid3 b0 b1 b2")
            case True
            with 2(3) [OF b0 bs v2 bs1 True] 2(5) b0 bs v2 bs1 show ?thesis
              by (auto dest: cons_ok_Inl)
          next
            case False
            note v3 = this
            show ?thesis
            proof (cases bs2)
              case Nil
              with 2(5) b0 bs v2 bs1 v3 show ?thesis by simp
            next
              case (Cons b3 bs3)
              note bs2 = this
              show ?thesis
              proof (cases "valid4 b0 b1 b2 b3")
                case True
                with 2(4) [OF b0 bs v2 bs1 v3 bs2 True] 2(5) b0 bs v2 bs1 v3 bs2 show ?thesis
                  by (auto dest: cons_ok_Inl)
              next
                case False
                with 2(5) b0 bs v2 bs1 v3 bs2 show ?thesis by simp
              qed
            qed
          qed
        qed
      qed
    qed
  qed
qed

lemma py_int_error: "py_int L s = Inl e \<Longrightarrow> e = ValueError"
  by (auto simp: py_int_def split: list.splits if_splits option.splits)

lemma find_vertex_count_error:
  "find_vertex_count L lines = Inl e \<Longrightarrow> e = ValueError \<or> e = IndexError"
  by (induction lines) (auto split: if_splits list.splits dest: py_int_error)

lemma decode_record_error:
  "decode_record props data = Inl e \<Longrightarrow> e = StructError \<or> e = IndexError"
  by (auto simp: decode_record_def struct_unpack_def Let_def split: if_splits)

lemma read_vertices_error:
  "read_vertices props n f acc = Inl e \<Longrightarrow> e = StructError \<or> e = IndexError"
proof (induction n arbitrary: f acc)
  case 0
  then show ?case by simp
next
  case (Suc n)
  show ?case
  proof (cases "decode_record props (take (calcsize props) f)")
    case (Inl e')
    with Suc.prems have "e = e'" by (auto simp: Let_def split: if_splits)
    with Inl show ?thesis by (auto dest: decode_record_error)
  next
    case (Inr v)
    with Suc.prems have "read_vertices props n (drop (calcsize props) f) (acc @ [v]) = Inl e"
      by (auto simp: Let_def split: if_splits)
    then show ?thesis by (rule Suc.IH)
  qed
qed

lemma parse_body_error:
  assumes "parse_body L header f = Inl e"
  shows "e = UnicodeDecodeError \<or> e = ValueError \<or> e = IndexError \<or> e = StructError"
proof (cases "decode_utf8 header")
  case (Inl e')
  with assms have "e = e'" by (simp add: parse_body_def)
  with Inl show ?thesis by (auto simp: decode_utf8_def dest: utf8_error)
next
  case (Inr header_str)
  note h = this
  show ?thesis
  proof (cases "find_vertex_count L (split_on 10 header_str)")
    case (Inl e')
    with assms h have "e = e'" by (simp add: parse_body_def)
    with Inl show ?thesis by (auto dest: find_vertex_count_error)
  next
    case (Inr n)
    with assms h have "read_vertices (find_props (split_on 10 header_str)) (nat n) f [] = Inl e"
      by (auto simp: parse_body_def split: sum.splits)
    then show ?thesis by (auto dest: read_vertices_error)
  qed
qed

lemma parse_ply_error:
  assumes "parse_ply L fs path = Some (Inl e)"
  shows "e = OSError \<or> e = UnicodeDecodeError \<or> e = ValueError \<or> e = IndexError
         \<or> e = StructError"
  using assms
  by (auto simp: parse_ply_def split: option.splits dest: parse_body_error)

lemma convert_unreadable:
  assumes "files fs input_path = None"
  shows "convert L input_path output_path ratio fs = Some (Inl OSError, fs)"
  using assms by (simp add: convert_def parse_ply_def)

lemma convert_unwritable:
  assumes "parse_ply L fs input_path = Some (Inr vertices)"
    and "subsample L vertices ratio = Inr kept"
    and "normalize L kept = Inr positions"
    and "\<not> writable fs output_path"
  shows "convert L input_path output_path ratio fs = Some (Inl OSError, fs)"
  using assms by (simp add: convert_unfold convert_to_splat_def)

lemma convert_success:
  assumes "convert L input_path output_path ratio fs = Some (Inr ret, fs')"
  shows "ret = PyNone
     \<and> (\<exists>bytes. files fs' output_path = Some bytes
            \<and> length bytes = 4 + 10 * le_nat (take 4 bytes))"
proof -
  from assms obtain vertices where "parse_ply L fs input_path = Some (Inr vertices)"
    and c: "convert_to_splat L vertices output_path ratio fs = (Inr ret, fs')"
    by (auto simp: convert_def split: option.splits sum.splits)
  from convert_to_splat_success [OF c] obtain kept positions out
    where k: "normalize L kept = Inr positions" "write_file L positions kept = (None, out)"
      "ret = PyNone" "fs' = fs\<lparr>files := (files fs)(output_path \<mapsto> out)\<rparr>" by blast
  from write_file_layout [OF k(2) normalize_length [OF k(1)]]
  have "length out = 4 + 10 * le_nat (take 4 out)" by simp
  moreover from k(4) have "files fs' output_path = Some out" by simp
  ultimately show ?thesis using k(3) by blast
qed

lemma sampleB_convert:
  "convert exact_lib ''b.ply'' ''b.splat'' (Fin False 1 0) fsB =
     Some (Inr PyNone, fsB\<lparr>files := (files fsB)(''b.splat'' \<mapsto>
        [2, 0, 0, 0,  0, 201, 0, 0, 0, 0, 10, 20, 30, 255,  0, 73, 0, 0, 0, 0, 40, 50, 60, 255])\<rparr>)"
  using sampleB_parse sampleB_convert_to_splat
  by (simp only: convert_unfold rowsB_def)

lemma sampleF_file: "files fsF ''f.ply'' = Some hdrF"
  by (simp add: fsF_def fs_of_def)

lemma sampleF_header: "read_header [] hdrF = Some (hdrF, [])"
  by (simp add: read_header.simps hdrF_def ply_header_def bytes_of_def startswith_def)

lemma sampleF_decode: "decode_utf8 hdrF = Inr (map unat hdrF)"
  by (simp add: decode_utf8_def hdrF_def ply_header_def bytes_of_def cons_ok_def)

lemma sampleF_count: "find_vertex_count L (split_on 10 (map unat hdrF)) = Inl ValueError"
  by (simp add: hdrF_def ply_header_def bytes_of_def str_of_def startswith_def isspace_def
      py_int_def strip_def to_ascii_def unsigned_val_def digit_of_def)

text \<open>
  The claim as stated fails twice. On the two-point file of sample B the conversion
  succeeds and returns \<open>None\<close>, not the count 2. On a header whose vertex count is not a
  number the failure is a \<open>ValueError\<close>, not a \<open>ParseError\<close>.
\<close>

theorem convert_counterexample:
  "map_option fst (convert exact_lib ''b.ply'' ''b.splat'' (Fin False 1 0) fsB)
     = Some (Inr PyNone)
   \<and> map_option fst (convert exact_lib ''b.ply'' ''b.splat'' (Fin False 1 0) fsB)
     \<noteq> Some (Inr (PyIntRet 2))
   \<and> map_option fst (convert exact_lib ''f.ply'' ''f.splat'' (Fin False 1 0) fsF)
     = Some (Inl ValueError)"
proof -
  have "parse_ply exact_lib fsF ''f.ply'' = Some (Inl ValueError)"
    unfolding parse_ply_unfold [OF sampleF_file sampleF_header sampleF_decode]
    by (simp add: sampleF_count)
  then have "convert exact_lib ''f.ply'' ''f.splat'' (Fin False 1 0) fsF
             = Some (Inl ValueError, fsF)"
    by (simp add: convert_def)
  then show ?thesis unfolding sampleB_convert by simp
qed

lemma concat_lines_of: "concat (lines_of f) = f"
  by (induction f) (auto split: list.splits)

lemma lines_of_readline:
  "f \<noteq> [] \<Longrightarrow> readline f = (l, r) \<Longrightarrow> lines_of f = l # lines_of r"
proof (induction f arbitrary: l r)
  case Nil
  then show ?case by simp
next
  case (Cons b bs)
  show ?case
  proof (cases "b = 10")
    case True
    with Cons.prems show ?thesis by simp
  next
    case False
    obtain l' r' where lr: "readline bs = (l', r')" by (cases "readline bs")
    with Cons.prems False have l: "l = b # l'" and r: "r = r'" by simp_all
    show ?thesis
    proof (cases "bs = []")
      case True
      with lr have "l' = []" "r' = []" by simp_all
      with True False l r show ?thesis by simp
    next
      case bs: False
      from Cons.IH [OF bs lr] False l r show ?thesis by simp
    qed
  qed
qed

lemma readline_line_nonempty: "f \<noteq> [] \<Longrightarrow> readline f = (l, r) \<Longrightarrow> l \<noteq> []"
  by (cases f) (auto split: if_splits prod.splits)

lemma readline_shorter:
  assumes "f \<noteq> []" and "readline f = (l, r)"
  shows "length r < length f"
proof -
  from assms(2) have "f = l @ r" by (rule readline_append)
  moreover from assms have "l \<noteq> []" by (rule readline_line_nonempty)
  ultimately show ?thesis by simp
qed

lemma end_header_not_in_empty: "\<not> contains (bytes_of ''end_header'') []"
  by (simp add: bytes_of_def)

lemma split_header_Nil [simp]: "split_header [] = None"
  by (simp add: split_header_def)

lemma split_header_step:
  assumes "f \<noteq> []" and "readline f = (l, r)"
  shows "split_header f =
     (if contains (bytes_of ''end_header'') l then Some (l, r)
      else map_option (\<lambda>(hdr, b). (l @ hdr, b)) (split_header r))"
proof (cases "contains (bytes_of ''end_header'') l")
  case True
  then show ?thesis
    using lines_of_readline [OF assms] concat_lines_of [of r] by (simp add: split_header_def)
next
  case False
  note lf = lines_of_readline [OF assms]
  have d: "dropWhile (\<lambda>l. \<not> contains (bytes_of ''end_header'') l) (lines_of f)
           = dropWhile (\<lambda>l. \<not> contains (bytes_of ''end_header'') l) (lines_of r)"
    using False by (simp add: lf)
  have t: "takeWhile (\<lambda>l. \<not> contains (bytes_of ''end_header'') l) (lines_of f)
           = l # takeWhile (\<lambda>l. \<not> contains (bytes_of ''end_header'') l) (lines_of r)"
    using False by (simp add: lf)
  have "(case D of [] \<Rightarrow> None | x # rest \<Rightarrow> Some (concat (l # T) @ x, concat rest))
        = map_option (\<lambda>(hdr, b). (l @ hdr, b))
            (case D of [] \<Rightarrow> None | x # rest \<Rightarrow> Some (concat T @ x, concat rest))"
    for D T :: "byte list list"
    by (cases D) simp_all
  then show ?thesis
    unfolding split_header_def d t if_not_P [OF False] .
qed

lemma read_header_returns:
  "split_header f = Some (hdr, b) \<Longrightarrow> read_header h f = Some (h @ hdr, b)"
proof (induction "length f" arbitrary: f h hdr b rule: less_induct)
  case less
  from less.prems have f: "f \<noteq> []" by auto
  obtain l r where lr: "readline f = (l, r)" by (cases "readline f")
  note step = split_header_step [OF f lr]
  show ?case
  proof (cases "contains (bytes_of ''end_header'') l")
    case True
    with step less.prems have "hdr = l" "b = r" by simp_all
    with True lr show ?thesis by (subst read_header.simps) simp
  next
    case False
    with step less.prems obtain hdr' where r: "split_header r = Some (hdr', b)" and hdr: "hdr = l @ hdr'"
      by (cases "split_header r") auto
    from readline_shorter [OF f lr] have "length r < length f" .
    from less.hyps [OF this r, of "h @ l"] have "read_header (h @ l) r = Some (h @ hdr, b)"
      by (simp add: hdr)
    with False lr show ?thesis by (subst read_header.simps) simp
  qed
qed

lemma read_header_only_if:
  assumes "read_header h f = Some y"
  shows "\<exists>hdr b. split_header f = Some (hdr, b) \<and> y = (h @ hdr, b)"
proof (rule read_header.raw_induct
    [where P = "\<lambda>h f y. \<exists>hdr b. split_header f = Some (hdr, b) \<and> y = (h @ hdr, b)", OF _ assms])
  fix rh :: "byte list \<Rightarrow> byte list \<Rightarrow> (byte list \<times> byte list) option"
  fix h f :: "byte list" and y
  assume IH: "\<And>h f y. rh h f = Some y \<Longrightarrow> \<exists>hdr b. split_header f = Some (hdr, b) \<and> y = (h @ hdr, b)"
  assume step: "(case readline f of
      (line, f') \<Rightarrow>
        if contains (bytes_of ''end_header'') line
        then Some (h @ line, f') else rh (h @ line) f') = Some y"
  obtain l r where lr: "readline f = (l, r)" by (cases "readline f")
  show "\<exists>hdr b. split_header f = Some (hdr, b) \<and> y = (h @ hdr, b)"
  proof (cases "f = []")
    case True
    with lr have "l = []" "r = []" by simp_all
    with step lr end_header_not_in_empty have "rh (h @ []) [] = Some y" by simp
    from IH [OF this] show ?thesis by simp
  next
    case False
    note sh = split_header_step [OF False lr]
    show ?thesis
    proof (cases "contains (bytes_of ''end_header'') l")
      case True
      with step lr sh show ?thesis by auto
    next
      case nc: False
      with step lr have "rh (h @ l) r = Some y" by simp
      from IH [OF this] obtain hdr b where "split_header r = Some (hdr, b)" "y = ((h @ l) @ hdr, b)"
        by blast
      with sh nc show ?thesis by simp
    qed
  qed
qed

lemma read_header_eq:
  "read_header h f = map_option (\<lambda>(hdr, b). (h @ hdr, b)) (split_header f)"
proof (cases "split_header f")
  case None
  show ?thesis
  proof (cases "read_header h f")
    case rn: None
    with None show ?thesis by simp
  next
    case (Some y)
    from read_header_only_if [OF Some] None show ?thesis by simp
  qed
next
  case (Some hb)
  obtain hdr b where "hb = (hdr, b)" by (cases hb)
  with Some read_header_returns [of f hdr b h] show ?thesis by simp
qed

lemma read_header_Nil_eq: "read_header [] f = split_header f"
  by (simp add: read_header_eq option.map_ident case_prod_unfold)

lemma parse_ply_total:
  assumes "files fs path = Some content"
    and "split_header content = Some (header, body)"
    and "decode_utf8 header = Inr header_str"
  shows "parse_ply L fs path =
     Some (case find_vertex_count L (split_on 10 header_str) of Inl e \<Rightarrow> Inl e
           | Inr n \<Rightarrow>
               (case read_vertices (find_props (split_on 10 header_str)) (nat n) body [] of
                  Inl e \<Rightarrow> Inl e
                | Inr vs \<Rightarrow> Inr (np_array L vs)))"
  using assms(2) by (intro parse_ply_unfold [OF assms(1) _ assms(3)]) (simp add: read_header_Nil_eq)

lemma split_header_of_read_header:
  "read_header [] f = Some (header, body) \<Longrightarrow> split_header f = Some (header, body)"
  by (simp add: read_header_Nil_eq)

lemmas sampleB_split = split_header_of_read_header [OF sampleB_header]
lemmas sampleC_split = split_header_of_read_header [OF sampleC_header]
lemmas sampleD_split = split_header_of_read_header [OF sampleD_header]
lemmas sampleF_split = split_header_of_read_header [OF sampleF_header]

text \<open>
  Claim C2, as the code has it. For an input that has a line containing \<open>end_header\<close>,
  whose header decodes and has no line starting with \<open>element vertex\<close>, the reader
  terminates and reports no error: the vertex count keeps its initial value 0 and the
  reader returns the empty table.
\<close>

theorem missing_vertex_line_gives_empty_table:
  assumes "files fs path = Some content"
    and "split_header content = Some (header, body)"
    and "decode_utf8 header = Inr header_str"
    and "\<forall>line \<in> set (split_on 10 header_str). \<not> startswith line (str_of ''element vertex'')"
  shows "parse_ply L fs path = Some (Inr Arr1)"
  unfolding parse_ply_total [OF assms(1-3)]
  by (simp add: find_vertex_count_none [OF assms(4)])

theorem missing_vertex_line_gives_empty_table_witness:
  "parse_ply exact_lib fsD ''d.ply'' = Some (Inr Arr1)"
  by (rule missing_vertex_line_gives_empty_table [OF sampleD_file sampleD_split sampleD_decode
      sampleD_no_vertex_line])

lemma read_vertices_table:
  assumes "3 \<le> length props" and "k = length body div calcsize props" and "k \<le> n"
  shows "\<exists>vs. read_vertices props n body [] = Inr vs \<and> length vs = k
           \<and> (\<forall>i < k. decode_record props (chunk props body i) = Inr (vs ! i))"
proof -
  from read_vertices_ok [OF assms(1), of n body "[]"] obtain vs
    where vs: "read_vertices props n body [] = Inr vs"
      and len: "length vs = min n (length body div calcsize props)" by auto
  from len assms(2,3) have k: "length vs = k" by simp
  from read_vertices_rows [OF vs] k
  have "\<forall>i < k. decode_record props (chunk props body i) = Inr (vs ! i)" by auto
  with vs k show ?thesis by blast
qed

text \<open>
  Claim C7, as the code has it. For an input with an \<open>end_header\<close> line and a schema of
  at least three fields, whose body holds the bytes of only \<open>k\<close> complete records while
  the header declares more, the reader terminates without an error and returns a table
  of exactly \<open>k\<close> rows; row \<open>i\<close> is the \<open>i\<close>-th record of the body, decoded and stored
  as float32.
\<close>

theorem truncated_body_yields_available_records:
  assumes "files fs path = Some content"
    and "split_header content = Some (header, body)"
    and "decode_utf8 header = Inr header_str"
    and "find_vertex_count L (split_on 10 header_str) = Inr n"
    and "props = find_props (split_on 10 header_str)"
    and "3 \<le> length props"
    and "k = length body div calcsize props"
    and "int k < n"
  shows "\<exists>vertices. parse_ply L fs path = Some (Inr vertices) \<and> len vertices = k
           \<and> length (rows_of vertices) = k
           \<and> (\<forall>i < k. \<exists>v. decode_record props (chunk props body i) = Inr v
                          \<and> rows_of vertices ! i = map_row (np_float32 L) v)"
proof -
  from assms(8) have "k \<le> nat n" by simp
  from read_vertices_table [OF assms(6,7) this] obtain vs
    where vs: "read_vertices props (nat n) body [] = Inr vs" "length vs = k"
      "\<forall>i < k. decode_record props (chunk props body i) = Inr (vs ! i)" by blast
  have p: "parse_ply L fs path = Some (Inr (np_array L vs))"
    unfolding parse_ply_total [OF assms(1-3)] using assms(4) vs(1) assms(5) by simp
  have "\<exists>v. decode_record props (chunk props body i) = Inr v
          \<and> rows_of (np_array L vs) ! i = map_row (np_float32 L) v" if "i < k" for i
    using vs(2,3) that by simp
  with p vs(2) show ?thesis by (intro exI [of _ "np_array L vs"]) simp
qed

theorem truncated_body_yields_available_records_witness:
  "\<exists>vertices. parse_ply exact_lib fsC ''c.ply'' = Some (Inr vertices) \<and> len vertices = 2
     \<and> length (rows_of vertices) = 2
     \<and> (\<exists>v. decode_record [Fmt_f, Fmt_f, Fmt_f, Fmt_B, Fmt_B, Fmt_B]
               [0,0,128,64, 0,0,0,0, 0,0,0,0, 40,50,60] = Inr v
            \<and> rows_of vertices ! 1 = map_row (np_float32 exact_lib) v)"
proof -
  have k: "(2::nat) = length (bodyB @ [1, 2, 3]) div calcsize [Fmt_f, Fmt_f, Fmt_f, Fmt_B, Fmt_B, Fmt_B]"
    by (simp add: bodyB_def)
  have c: "chunk [Fmt_f, Fmt_f, Fmt_f, Fmt_B, Fmt_B, Fmt_B] (bodyB @ [1, 2, 3]) 1
           = [0,0,128,64, 0,0,0,0, 0,0,0,0, 40,50,60]"
    by (simp add: chunk_def bodyB_def)
  from truncated_body_yields_available_records [OF sampleC_file sampleC_split sampleC_decode
      sampleC_count sampleC_props [symmetric] _ k, of exact_lib]
  obtain vertices where v: "parse_ply exact_lib fsC ''c.ply'' = Some (Inr vertices)"
      "len vertices = 2" "length (rows_of vertices) = 2"
      "\<forall>i < 2. \<exists>v. decode_record [Fmt_f, Fmt_f, Fmt_f, Fmt_B, Fmt_B, Fmt_B]
          (chunk [Fmt_f, Fmt_f, Fmt_f, Fmt_B, Fmt_B, Fmt_B] (bodyB @ [1, 2, 3]) i) = Inr v
          \<and> rows_of vertices ! i = map_row (np_float32 exact_lib) v"
    by auto
  have "\<exists>v. decode_record [Fmt_f, Fmt_f, Fmt_f, Fmt_B, Fmt_B, Fmt_B]
          (chunk [Fmt_f, Fmt_f, Fmt_f, Fmt_B, Fmt_B, Fmt_B] (bodyB @ [1, 2, 3]) 1) = Inr v
          \<and> rows_of vertices ! 1 = map_row (np_float32 exact_lib) v"
    using v(4) by (rule allE [of _ 1]) simp
  with v(1-3) show ?thesis unfolding c by blast
qed

lemma sampleG_file: "files fsG ''g.ply'' = Some (hdrG @ bodyG)"
  by (simp add: fsG_def fs_of_def)

lemma sampleG_header: "read_header [] (hdrG @ bodyG) = Some (hdrG, bodyG)"
  by (simp add: read_header.simps hdrG_def ply_header_def bytes_of_def startswith_def bodyG_def)

lemma sampleG_decode: "decode_utf8 hdrG = Inr (map unat hdrG)"
  by (simp add: decode_utf8_def hdrG_def ply_header_def bytes_of_def cons_ok_def)

lemma sampleG_props: "find_props (split_on 10 (map unat hdrG)) = [Fmt_f, Fmt_f]"
  by (simp add: hdrG_def ply_header_def bytes_of_def str_of_def startswith_def)

lemma sampleG_count: "find_vertex_count L (split_on 10 (map unat hdrG)) = Inr 5"
  by (simp add: hdrG_def ply_header_def bytes_of_def str_of_def startswith_def isspace_def
      py_int_def strip_def to_ascii_def unsigned_val_def digit_of_def)

lemma sampleG_vertices:
  "read_vertices (find_props (split_on 10 (map unat hdrG))) (nat 5) bodyG [] = Inl IndexError"
proof -
  have "read_vertices [Fmt_f, Fmt_f] (Suc 4) bodyG [] = Inl IndexError"
    by (subst read_vertices.simps)
       (simp add: bodyG_def decode_record_def struct_unpack_def Let_def)
  moreover have "nat 5 = Suc 4" by simp
  ultimately show ?thesis by (simp only: sampleG_props)
qed

text \<open>
  The claim as stated fails on a schema of two fields: of five declared records the body
  holds one complete record, and the reader raises \<open>IndexError\<close> at \<open>values[2]\<close>
  instead of returning that record.
\<close>

theorem truncated_body_counterexample:
  "find_vertex_count exact_lib (split_on 10 (map unat hdrG)) = Inr 5
   \<and> length bodyG div calcsize (find_props (split_on 10 (map unat hdrG))) = 1
   \<and> parse_ply exact_lib fsG ''g.ply'' = Some (Inl IndexError)"
proof (intro conjI)
  show "find_vertex_count exact_lib (split_on 10 (map unat hdrG)) = Inr 5"
    by (rule sampleG_count)
  show "length bodyG div calcsize (find_props (split_on 10 (map unat hdrG))) = 1"
    by (simp add: sampleG_props bodyG_def)
  show "parse_ply exact_lib fsG ''g.ply'' = Some (Inl IndexError)"
    unfolding parse_ply_unfold [OF sampleG_file sampleG_header sampleG_decode]
      sampleG_count sum.case sampleG_vertices
    by simp
qed

lemma py_split_vertex_line:
  assumes "startswith line (str_of ''element vertex'')"
  shows "py_split line \<noteq> []"
proof -
  from assms obtain cs where "line = 101 # cs"
    by (cases line) (auto simp: startswith_def str_of_def)
  then show ?thesis by (simp add: isspace_def)
qed

lemma find_vertex_count_ValueError:
  "find_vertex_count L lines = Inl e \<Longrightarrow> e = ValueError"
proof (induction lines)
  case Nil
  then show ?case by simp
next
  case (Cons line lines)
  show ?case
  proof (cases "startswith line (str_of ''element vertex'')")
    case True
    from py_split_vertex_line [OF True] obtain t ts where "py_split line = t # ts"
      by (cases "py_split line") auto
    with True Cons.prems show ?thesis by (auto dest: py_int_error)
  next
    case False
    with Cons show ?thesis by simp
  qed
qed

lemma convert_parse_error:
  "parse_ply L fs input_path = Some (Inl e) \<Longrightarrow>
   convert L input_path output_path ratio fs = Some (Inl e, fs)"
  by (simp add: convert_def)

lemma parse_ply_undecodable:
  assumes "files fs path = Some content"
    and "split_header content = Some (header, body)"
    and "decode_utf8 header = Inl e"
  shows "parse_ply L fs path = Some (Inl UnicodeDecodeError)"
proof -
  from assms(3) have "e = UnicodeDecodeError"
    by (auto simp: decode_utf8_def dest: utf8_error)
  with assms show ?thesis
    by (simp add: parse_ply_def parse_body_def read_header_Nil_eq)
qed

lemma parse_ply_bad_count:
  assumes "files fs path = Some content"
    and "split_header content = Some (header, body)"
    and "decode_utf8 header = Inr header_str"
    and "find_vertex_count L (split_on 10 header_str) = Inl e"
  shows "parse_ply L fs path = Some (Inl ValueError)"
  unfolding parse_ply_total [OF assms(1-3)]
  using assms(4) find_vertex_count_ValueError [OF assms(4)] by simp

lemma convert_success_count:
  assumes "convert L input_path output_path ratio fs = Some (Inr ret, fs')"
  shows "ret = PyNone
     \<and> (\<exists>vertices kept bytes. parse_ply L fs input_path = Some (Inr vertices)
            \<and> subsample L vertices ratio = Inr kept
            \<and> files fs' output_path = Some bytes
            \<and> le_nat (take 4 bytes) = len kept
            \<and> length bytes = 4 + 10 * len kept)"
proof -
  from assms obtain vertices where p: "parse_ply L fs input_path = Some (Inr vertices)"
    and c: "convert_to_splat L vertices output_path ratio fs = (Inr ret, fs')"
    by (auto simp: convert_def split: option.splits sum.splits)
  from convert_to_splat_success [OF c] obtain kept positions out
    where k: "subsample L vertices ratio = Inr kept" "normalize L kept = Inr positions"
      "write_file L positions kept = (None, out)"
      "ret = PyNone" "fs' = fs\<lparr>files := (files fs)(output_path \<mapsto> out)\<rparr>" by blast
  from write_file_layout [OF k(3) normalize_length [OF k(2)]]
  have "le_nat (take 4 out) = len kept" "length out = 4 + 10 * len kept" by simp_all
  moreover from k(5) have "files fs' output_path = Some out" by simp
  ultimately show ?thesis using k(1,4) p by blast
qed

text \<open>
  Claim C9, as the code has it. The conversion of one file is \<^verbatim>\<open>parse_ply\<close> followed by
  \<^verbatim>\<open>convert_to_splat\<close>. It fails with \<open>OSError\<close> (\<open>IOError\<close>) when the input file cannot be
  opened, and when the output file cannot be opened once the table has been read,
  subsampled and normalised. When it returns, it returns \<open>None\<close>; the number of rows kept
  is in the first four bytes of the output file, which has 4 + 10 * count bytes. On an
  input with an \<open>end_header\<close> line a bad header is reported as follows: a header that
  does not decode fails with \<open>UnicodeDecodeError\<close>, a vertex count that \<^verbatim>\<open>int\<close> rejects
  fails with \<open>ValueError\<close>, and a header without a vertex-count line gives the empty
  table, on which the encoder fails with \<open>IndexError\<close> for a finite ratio. The reader
  never raises \<open>ParseError\<close>.
\<close>

theorem convert_outcomes:
  "(files fs input_path = None \<longrightarrow>
      convert L input_path output_path ratio fs = Some (Inl OSError, fs))
   \<and> (\<forall>vertices kept positions.
        parse_ply L fs input_path = Some (Inr vertices) \<and> subsample L vertices ratio = Inr kept
        \<and> normalize L kept = Inr positions \<and> \<not> writable fs output_path \<longrightarrow>
        convert L input_path output_path ratio fs = Some (Inl OSError, fs))
   \<and> (\<forall>ret fs'. convert L input_path output_path ratio fs = Some (Inr ret, fs') \<longrightarrow>
        ret = PyNone
        \<and> (\<exists>vertices kept bytes. parse_ply L fs input_path = Some (Inr vertices)
               \<and> subsample L vertices ratio = Inr kept
               \<and> files fs' output_path = Some bytes
               \<and> le_nat (take 4 bytes) = len kept
               \<and> length bytes = 4 + 10 * len kept))
   \<and> (\<forall>content header body.
        files fs input_path = Some content \<and> split_header content = Some (header, body) \<longrightarrow>
          (\<forall>e. decode_utf8 header = Inl e \<longrightarrow>
             convert L input_path output_path ratio fs = Some (Inl UnicodeDecodeError, fs))
        \<and> (\<forall>header_str e. decode_utf8 header = Inr header_str
             \<and> find_vertex_count L (split_on 10 header_str) = Inl e \<longrightarrow>
             convert L input_path output_path ratio fs = Some (Inl ValueError, fs))
        \<and> (\<forall>header_str. decode_utf8 header = Inr header_str
             \<and> (\<forall>line \<in> set (split_on 10 header_str).
                    \<not> startswith line (str_of ''element vertex'')) \<longrightarrow>
             parse_ply L fs input_path = Some (Inr Arr1)
             \<and> (finite_double ratio \<longrightarrow>
                  convert L input_path output_path ratio fs = Some (Inl IndexError, fs))))
   \<and> parse_ply L fs input_path \<noteq> Some (Inl ParseError)"
proof (intro conjI allI impI)
  show "convert L input_path output_path ratio fs = Some (Inl OSError, fs)"
    if "files fs input_path = None"
    using that by (rule convert_unreadable)
  show "convert L input_path output_path ratio fs = Some (Inl OSError, fs)"
    if "parse_ply L fs input_path = Some (Inr vertices) \<and> subsample L vertices ratio = Inr kept
        \<and> normalize L kept = Inr positions \<and> \<not> writable fs output_path"
    for vertices kept positions
    using that convert_unwritable by blast
  show "ret = PyNone" if "convert L input_path output_path ratio fs = Some (Inr ret, fs')"
    for ret fs'
    using convert_success_count [OF that] by blast
  show "\<exists>vertices kept bytes. parse_ply L fs input_path = Some (Inr vertices)
               \<and> subsample L vertices ratio = Inr kept
               \<and> files fs' output_path = Some bytes
               \<and> le_nat (take 4 bytes) = len kept
               \<and> length bytes = 4 + 10 * len kept"
    if "convert L input_path output_path ratio fs = Some (Inr ret, fs')" for ret fs'
    using convert_success_count [OF that] by blast
  show "convert L input_path output_path ratio fs = Some (Inl UnicodeDecodeError, fs)"
    if "files fs input_path = Some content \<and> split_header content = Some (header, body)"
      and "decode_utf8 header = Inl e" for content header body e
    using that by (intro convert_parse_error parse_ply_undecodable) auto
  show "convert L input_path output_path ratio fs = Some (Inl ValueError, fs)"
    if "files fs input_path = Some content \<and> split_header content = Some (header, body)"
      and "decode_utf8 header = Inr header_str
             \<and> find_vertex_count L (split_on 10 header_str) = Inl e"
    for content header body header_str e
    using that by (intro convert_parse_error parse_ply_bad_count) auto
  show "parse_ply L fs input_path = Some (Inr Arr1)"
    if "files fs input_path = Some content \<and> split_header content = Some (header, body)"
      and "decode_utf8 header = Inr header_str
             \<and> (\<forall>line \<in> set (split_on 10 header_str).
                    \<not> startswith line (str_of ''element vertex''))"
    for content header body header_str
  proof -
    from that have n: "find_vertex_count L (split_on 10 header_str) = Inr 0"
      by (intro find_vertex_count_none) simp
    from that show ?thesis
      by (simp add: parse_ply_total [of fs input_path content header body header_str] n)
  qed
  show "convert L input_path output_path ratio fs = Some (Inl IndexError, fs)"
    if "files fs input_path = Some content \<and> split_header content = Some (header, body)"
      and "decode_utf8 header = Inr header_str
             \<and> (\<forall>line \<in> set (split_on 10 header_str).
                    \<not> startswith line (str_of ''element vertex''))"
      and "finite_double ratio"
    for content header body header_str
  proof -
    from that have n: "find_vertex_count L (split_on 10 header_str) = Inr 0"
      by (intro find_vertex_count_none) simp
    from that have "parse_ply L fs input_path = Some (Inr Arr1)"
      by (simp add: parse_ply_total [of fs input_path content header body header_str] n)
    then show ?thesis
      by (simp only: convert_unfold convert_to_splat_Arr1 [OF that(3)])
  qed
  show "parse_ply L fs input_path \<noteq> Some (Inl ParseError)"
    using parse_ply_error [of L fs input_path ParseError] by auto
qed


lemma sampleH_file: "files fsH ''h.ply'' = Some hdrH"
  by (simp add: fsH_def fs_of_def)

lemma sampleH_header: "read_header [] hdrH = Some (hdrH, [])"
  by (simp add: read_header.simps hdrH_def ply_header_def bytes_of_def startswith_def)

lemmas sampleH_split = split_header_of_read_header [OF sampleH_header]

lemma sampleH_decode: "decode_utf8 hdrH = Inl UnicodeDecodeError"
  by (simp add: decode_utf8_def hdrH_def ply_header_def bytes_of_def valid2_def valid3_def
      valid4_def)

theorem convert_outcomes_witness:
  "convert exact_lib ''missing.ply'' ''b.splat'' (Fin False 1 0) fsB = Some (Inl OSError, fsB)
   \<and> convert exact_lib ''b.ply'' ''b.splat'' (Fin False 1 0) (fsB\<lparr>writable := (\<lambda>p. False)\<rparr>)
       = Some (Inl OSError, fsB\<lparr>writable := (\<lambda>p. False)\<rparr>)
   \<and> (\<exists>kept. subsample exact_lib (Arr2 rowsB) (Fin False 1 0) = Inr kept
         \<and> le_nat (take 4 [2, 0, 0, 0,  0, 201, 0, 0, 0, 0, 10, 20, 30, 255,
                            0, 73, 0, 0, 0, 0, 40, 50, 60, 255]) = len kept
         \<and> length [2, 0, 0, 0,  0, 201, 0, 0, 0, 0, 10, 20, 30, 255,
                   0, 73, 0, 0, 0, 0, 40, 50, 60, 255 :: byte] = 4 + 10 * len kept)
   \<and> convert exact_lib ''h.ply'' ''h.splat'' (Fin False 1 0) fsH
       = Some (Inl UnicodeDecodeError, fsH)
   \<and> convert exact_lib ''f.ply'' ''f.splat'' (Fin False 1 0) fsF = Some (Inl ValueError, fsF)
   \<and> parse_ply exact_lib fsD ''d.ply'' = Some (Inr Arr1)
   \<and> convert exact_lib ''d.ply'' ''d.splat'' (Fin False 1 0) fsD = Some (Inl IndexError, fsD)
   \<and> parse_ply exact_lib fsB ''b.ply'' \<noteq> Some (Inl ParseError)"
proof (intro conjI)
  have "files fsB ''missing.ply'' = None" by (simp add: fsB_def fs_of_def)
  with convert_outcomes [of fsB "''missing.ply''" exact_lib "''b.splat''" "Fin False 1 0"]
  show "convert exact_lib ''missing.ply'' ''b.splat'' (Fin False 1 0) fsB = Some (Inl OSError, fsB)"
    by blast
  let ?ro = "fsB\<lparr>writable := (\<lambda>p. False)\<rparr>"
  have p: "parse_ply exact_lib ?ro ''b.ply'' = Some (Inr (Arr2 rowsB))"
    using sampleB_parse by (simp add: parse_ply_def rowsB_def)
  have "\<not> writable ?ro ''b.splat''" by simp
  with p sampleB_subsample sampleB_normalize
    convert_outcomes [of ?ro "''b.ply''" exact_lib "''b.splat''" "Fin False 1 0"]
  show "convert exact_lib ''b.ply'' ''b.splat'' (Fin False 1 0) ?ro = Some (Inl OSError, ?ro)"
    by blast
  let ?out = "[2, 0, 0, 0,  0, 201, 0, 0, 0, 0, 10, 20, 30, 255,
               0, 73, 0, 0, 0, 0, 40, 50, 60, 255 :: byte]"
  from sampleB_convert
    convert_outcomes [of fsB "''b.ply''" exact_lib "''b.splat''" "Fin False 1 0"]
  obtain vertices kept bytes where k: "parse_ply exact_lib fsB ''b.ply'' = Some (Inr vertices)"
     "subsample exact_lib vertices (Fin False 1 0) = Inr kept"
     "files (fsB\<lparr>files := (files fsB)(''b.splat'' \<mapsto> ?out)\<rparr>) ''b.splat'' = Some bytes"
     "le_nat (take 4 bytes) = len kept" "length bytes = 4 + 10 * len kept"
    by blast
  from k(1) sampleB_parse have "vertices = Arr2 rowsB" by (simp add: rowsB_def)
  moreover from k(3) have "bytes = ?out" by simp
  ultimately show "\<exists>kept. subsample exact_lib (Arr2 rowsB) (Fin False 1 0) = Inr kept
         \<and> le_nat (take 4 ?out) = len kept \<and> length ?out = 4 + 10 * len kept"
    using k(2,4,5) by blast
  from sampleH_file sampleH_split sampleH_decode
    convert_outcomes [of fsH "''h.ply''" exact_lib "''h.splat''" "Fin False 1 0"]
  show "convert exact_lib ''h.ply'' ''h.splat'' (Fin False 1 0) fsH
       = Some (Inl UnicodeDecodeError, fsH)"
    by blast
  from sampleF_file sampleF_split sampleF_decode sampleF_count [of exact_lib]
    convert_outcomes [of fsF "''f.ply''" exact_lib "''f.splat''" "Fin False 1 0"]
  show "convert exact_lib ''f.ply'' ''f.splat'' (Fin False 1 0) fsF = Some (Inl ValueError, fsF)"
    by blast
  from sampleD_file sampleD_split sampleD_decode sampleD_no_vertex_line
    convert_outcomes [of fsD "''d.ply''" exact_lib "''d.splat''" "Fin False 1 0"]
  show "parse_ply exact_lib fsD ''d.ply'' = Some (Inr Arr1)"
    by blast
  from sampleD_file sampleD_split sampleD_decode sampleD_no_vertex_line finite_double_one
    convert_outcomes [of fsD "''d.ply''" exact_lib "''d.splat''" "Fin False 1 0"]
  show "convert exact_lib ''d.ply'' ''d.splat'' (Fin False 1 0) fsD = Some (Inl IndexError, fsD)"
    by blast
  from convert_outcomes [of fsB "''b.ply''" exact_lib "''b.splat''" "Fin False 1 0"]
  show "parse_ply exact_lib fsB ''b.ply'' \<noteq> Some (Inl ParseError)"
    by blast
qed

end
